theory Spec2Isabelle
  imports Main "HOL-Library.Multiset"
begin

section \<open>Data model of the transaction service\<close>

text \<open>
  The embedding follows \<^verbatim>\<open>dashboard/lib/transaction-service.ts\<close>. A JavaScript
  \<^verbatim>\<open>bigint\<close> is an \<open>int\<close>, a string is a \<open>string\<close>, an optional field is an \<open>option\<close>.
  A \<^verbatim>\<open>Date\<close> is a time value in milliseconds or the Invalid Date, whose
  \<^verbatim>\<open>getTime()\<close> is \<^verbatim>\<open>NaN\<close>.
  An exception is the \<open>Inl\<close> of a sum, so that every \<^verbatim>\<open>try/catch\<close> of the source is
  a case distinction of the model.
\<close>

datatype error = RpcError | TypeError | SyntaxError

datatype date = Date int | InvalidDate

record TransactionEvent =
  buyer :: string
  receiver :: string
  amountSC :: string
  amountBC :: string
  blockNumber :: int
  transactionHash :: string
  timestamp :: "date option"
  chainId :: int
  networkName :: string

text \<open>The fields of a raw log entry that the service reads.\<close>

record rawlog =
  log_topics :: "string list"
  log_data :: string
  log_blockNumber :: int
  log_transactionHash :: string

text \<open>
  The module \<^verbatim>\<open>./config\<close> is not part of the sources: its three tables are parameters.
  An entry of \<^verbatim>\<open>NETWORKS\<close> is read for its \<^verbatim>\<open>chainId\<close> and \<^verbatim>\<open>name\<close>; a lookup
  with an unknown key is \<^verbatim>\<open>undefined\<close>, here \<open>None\<close>. The addresses of the three
  contracts, which the code reads under fixed keys, are fields.
\<close>

record network =
  net_chainId :: int
  net_name :: string

record config =
  NETWORKS :: "string \<Rightarrow> network option"
  CONTRACTS_stablepay :: string
  CONTRACTS_stablepay_etc :: string
  CONTRACTS_stablepay_mordor :: string
  DEPLOYMENT_BLOCKS :: "string \<Rightarrow> int option"

text \<open>
  The chain client (\<^verbatim>\<open>client: any\<close>) is the capability the service calls: the block
  height, a log query for a contract address, an optional receiver filter and an
  inclusive block range, and the timestamp (in seconds) of a block. Each call may throw.
  A client answers a call by its arguments alone, so the order in which the concurrent
  calls of \<^verbatim>\<open>Promise.all\<close> reach it does not matter.
\<close>

record client =
  getBlockNumber :: "error + int"
  getLogs :: "string \<Rightarrow> string option \<Rightarrow> int \<Rightarrow> int \<Rightarrow> error + rawlog list"
  getBlock :: "int \<Rightarrow> error + int"

record clients =
  sepoliaClient :: client
  etcClient :: client
  mordorClient :: client

text \<open>The \<^verbatim>\<open>limit: number | 'all'\<close> parameter, with an integer count.\<close>

datatype limit = LimitAll | LimitNum int

text \<open>A log query as it is issued: the inclusive range \<open>(fromBlock, toBlock)\<close>.\<close>

type_synonym query = "int \<times> int"

section \<open>Strings, numbers and sorting of the language and its libraries\<close>

text \<open>\<^verbatim>\<open>xs.slice(0, end)\<close>: a negative \<open>end\<close> counts from the end of the array.\<close>

definition slice0 :: "'a list \<Rightarrow> int \<Rightarrow> 'a list" where
  "slice0 xs e =
     (let len = int (length xs);
          k = (if e < 0 then max (len + e) 0 else min e len)
      in take (nat k) xs)"

text \<open>\<^verbatim>\<open>s.slice(-n)\<close>: the last \<open>n\<close> characters, the whole string when it is shorter.\<close>

definition slice_last :: "nat \<Rightarrow> 'a list \<Rightarrow> 'a list" where
  "slice_last n s = drop (length s - n) s"

text \<open>\<^verbatim>\<open>s.replace('0x', '')\<close>: removes the first occurrence of the substring.\<close>

fun replace_0x :: "string \<Rightarrow> string" where
  "replace_0x (a # b # s) =
     (if a = CHR ''0'' \<and> b = CHR ''x'' then s else a # replace_0x (b # s))"
| "replace_0x s = s"

text \<open>
  \<^verbatim>\<open>Array.prototype.sort(comparefn)\<close>: the language requires a stable sort, which for
  a consistent comparator fixes the result; a stable insertion sort computes it. A
  comparator result \<^verbatim>\<open>NaN\<close> counts as \<open>0\<close>. (For an inconsistent comparator
  the language leaves the order to the implementation; the model then has the order of
  the insertion sort, which leaves a list alone whose neighbours all compare as
  \<open>0\<close>, as a sort by runs or by insertion does.)
\<close>

fun insert_cmp :: "('a \<Rightarrow> 'a \<Rightarrow> int) \<Rightarrow> 'a \<Rightarrow> 'a list \<Rightarrow> 'a list" where
  "insert_cmp cmp x [] = [x]"
| "insert_cmp cmp x (y # ys) =
     (if cmp x y \<le> 0 then x # y # ys else y # insert_cmp cmp x ys)"

definition sort_js :: "('a \<Rightarrow> 'a \<Rightarrow> int) \<Rightarrow> 'a list \<Rightarrow> 'a list" where
  "sort_js cmp xs = foldr (insert_cmp cmp) xs []"

text \<open>
  \<^verbatim>\<open>new Date(v)\<close> for an integral number \<open>v\<close>: the time value \<open>v\<close>, and the
  Invalid Date when \<open>v\<close> is beyond 8.64e15 milliseconds on either side.
\<close>

definition newDate :: "int \<Rightarrow> date" where
  "newDate v = (if \<bar>v\<bar> \<le> 8640000000000000 then Date v else InvalidDate)"

text \<open>\<^verbatim>\<open>[...new Set(xs)]\<close>: the distinct elements in the order of their first occurrence.\<close>

definition uniq :: "'a list \<Rightarrow> 'a list" where
  "uniq xs = rev (remdups (rev xs))"

text \<open>
  \<^verbatim>\<open>BigInt('0x' + digits)\<close>: the value of a hexadecimal literal, a \<^verbatim>\<open>SyntaxError\<close>
  when there is no digit or a character is not a hexadecimal digit. Only this branch of
  the conversion is modelled (the source passes no other string; surrounding white
  space, which the language would trim, does not occur in the hexadecimal data of a log).
\<close>

definition hex_digit :: "char \<Rightarrow> nat option" where
  "hex_digit c =
     (let k = (of_char c :: nat)
      in if 48 \<le> k \<and> k \<le> 57 then Some (k - 48)
         else if 97 \<le> k \<and> k \<le> 102 then Some (k - 87)
         else if 65 \<le> k \<and> k \<le> 70 then Some (k - 55)
         else None)"

fun hex_acc :: "nat \<Rightarrow> string \<Rightarrow> nat option" where
  "hex_acc n [] = Some n"
| "hex_acc n (c # cs) =
     (case hex_digit c of None \<Rightarrow> None | Some d \<Rightarrow> hex_acc (16 * n + d) cs)"

definition BigInt :: "string \<Rightarrow> error + int" where
  "BigInt s =
     (if take 2 s = ''0x'' \<and> drop 2 s \<noteq> []
      then (case hex_acc 0 (drop 2 s) of None \<Rightarrow> Inl SyntaxError | Some n \<Rightarrow> Inr (int n))
      else Inl SyntaxError)"

text \<open>\<^verbatim>\<open>value.toString()\<close> of a non-negative integer: its decimal digits.\<close>

definition digit_char :: "nat \<Rightarrow> char" where
  "digit_char d = ''0123456789'' ! d"

fun toString :: "nat \<Rightarrow> string" where
  "toString n = (if n < 10 then [digit_char n] else toString (n div 10) @ [digit_char (n mod 10)])"

text \<open>\<^verbatim>\<open>s.padStart(n, '0')\<close> and \<^verbatim>\<open>s.replace(/(0+)$/, '')\<close>.\<close>

definition padStart0 :: "nat \<Rightarrow> string \<Rightarrow> string" where
  "padStart0 n s = replicate (n - length s) CHR ''0'' @ s"

definition strip_zeros :: "string \<Rightarrow> string" where
  "strip_zeros s = rev (dropWhile (\<lambda>c. c = CHR ''0'') (rev s))"

text \<open>
  Modelled from the spec: \<^verbatim>\<open>formatUnits\<close> is imported from the package \<^verbatim>\<open>viem\<close>,
  whose code is not part of the sources. The spec has the amount as the raw integer
  scaled by a power of ten, exact, without rounding or scientific notation, with
  \<open>123456789\<close> at 6 decimals written \<^verbatim>\<open>123.456789\<close> and \<open>0\<close> written \<^verbatim>\<open>0\<close>: the
  decimal digits are padded to the number of decimals, split into integer and fraction,
  the fraction loses its trailing zeros, and an empty integer part is written \<^verbatim>\<open>0\<close>.
\<close>

definition formatUnits :: "int \<Rightarrow> nat \<Rightarrow> string" where
  "formatUnits v decimals =
     (let negative = (v < 0);
          display = padStart0 decimals (toString (nat \<bar>v\<bar>));
          integer = take (length display - decimals) display;
          fraction = strip_zeros (drop (length display - decimals) display)
      in (if negative then ''-'' else '''')
         @ (if integer = [] then ''0'' else integer)
         @ (if fraction = [] then '''' else ''.'' @ fraction))"

section \<open>The service\<close>

subsection \<open>formatAddress and the decoding of a log\<close>

definition formatAddress :: "string \<Rightarrow> string" where
  "formatAddress address = ''0x'' @ slice_last 40 (replace_0x address)"

text \<open>\<^verbatim>\<open>event.topics[i]\<close>: \<^verbatim>\<open>undefined\<close> beyond the end of the array.\<close>

definition topic :: "rawlog \<Rightarrow> nat \<Rightarrow> string option" where
  "topic event i = (if i < length (log_topics event) then Some (log_topics event ! i) else None)"

text \<open>
  The callback of \<^verbatim>\<open>allEvents.map\<close>. The fields are evaluated in the order of the
  object literal: \<^verbatim>\<open>formatAddress(undefined)\<close> and \<^verbatim>\<open>network.chainId\<close> of an
  \<^verbatim>\<open>undefined\<close> network throw a \<^verbatim>\<open>TypeError\<close>, \<^verbatim>\<open>BigInt\<close> a \<^verbatim>\<open>SyntaxError\<close>.
  The event has no timestamp yet.
\<close>

definition decodeLog :: "network option \<Rightarrow> rawlog \<Rightarrow> error + TransactionEvent" where
  "decodeLog network event =
     (let rawData = drop 2 (log_data event);
          amountSCHex = ''0x'' @ take 64 rawData;
          amountBCHex = ''0x'' @ drop 64 rawData
      in case topic event 1 of None \<Rightarrow> Inl TypeError | Some t1 \<Rightarrow>
         (case topic event 2 of None \<Rightarrow> Inl TypeError | Some t2 \<Rightarrow>
         (case BigInt amountSCHex of Inl e \<Rightarrow> Inl e | Inr sc \<Rightarrow>
         (case BigInt amountBCHex of Inl e \<Rightarrow> Inl e | Inr bc \<Rightarrow>
         (case network of None \<Rightarrow> Inl TypeError | Some n \<Rightarrow>
            Inr \<lparr> buyer = formatAddress t1,
                  receiver = formatAddress t2,
                  amountSC = formatUnits sc 6,
                  amountBC = formatUnits bc 18,
                  blockNumber = log_blockNumber event,
                  transactionHash = log_transactionHash event,
                  timestamp = None,
                  chainId = net_chainId n,
                  networkName = net_name n \<rparr>)))))"

text \<open>\<^verbatim>\<open>xs.map(f)\<close> with a callback that may throw: the first exception ends the map.\<close>

fun mapE :: "('a \<Rightarrow> error + 'b) \<Rightarrow> 'a list \<Rightarrow> error + 'b list" where
  "mapE f [] = Inr []"
| "mapE f (x # xs) =
     (case f x of Inl e \<Rightarrow> Inl e
      | Inr y \<Rightarrow> (case mapE f xs of Inl e \<Rightarrow> Inl e | Inr ys \<Rightarrow> Inr (y # ys)))"

text \<open>
  \<^verbatim>\<open>DEPLOYMENT_BLOCKS[networkKey] || BigInt(0)\<close>: a missing entry and the entry \<open>0\<close>
  both give \<open>0\<close>.
\<close>

definition startBlockOf :: "config \<Rightarrow> string \<Rightarrow> int" where
  "startBlockOf cfg networkKey =
     (case DEPLOYMENT_BLOCKS cfg networkKey of None \<Rightarrow> 0 | Some b \<Rightarrow> if b = 0 then 0 else b)"

text \<open>
  \<^verbatim>\<open>args: merchantAddress ? { receiver: merchantAddress } : undefined\<close>: a missing and
  an empty address give no filter.
\<close>

definition receiverArgs :: "string option \<Rightarrow> string option" where
  "receiverArgs merchantAddress =
     (case merchantAddress of None \<Rightarrow> None | Some a \<Rightarrow> if a = [] then None else Some a)"

subsection \<open>The forward scan\<close>

text \<open>
  The \<^verbatim>\<open>while (fromBlock <= currentBlock)\<close> loop of \<^verbatim>\<open>fetchEventsFromNetwork\<close>. The
  state is \<open>fromBlock\<close> and \<open>allEvents\<close>; \<open>qs\<close> records the log queries issued so far.
  The result is the outcome of the loop (an exception of \<^verbatim>\<open>getLogs\<close>, or the events)
  and the queries it issued.
\<close>

function forward_loop ::
  "client \<Rightarrow> string \<Rightarrow> string option \<Rightarrow> int \<Rightarrow> int \<Rightarrow> rawlog list \<Rightarrow> query list
     \<Rightarrow> (error + rawlog list) \<times> query list" where
  "forward_loop c address args currentBlock fromBlock allEvents qs =
     (if fromBlock \<le> currentBlock then
        (let toBlock = (if fromBlock + 49999 > currentBlock then currentBlock
                        else fromBlock + 49999)
         in case getLogs c address args fromBlock toBlock of
              Inl e \<Rightarrow> (Inl e, qs @ [(fromBlock, toBlock)])
            | Inr purchaseEvents \<Rightarrow>
                forward_loop c address args currentBlock (toBlock + 1)
                  (allEvents @ purchaseEvents) (qs @ [(fromBlock, toBlock)]))
      else (Inr allEvents, qs))"
  by pat_completeness auto
termination
  by (relation "measure (\<lambda>(c, address, args, currentBlock, fromBlock, allEvents, qs).
        nat (currentBlock - fromBlock + 1))") (auto split: if_splits)

text \<open>The body of the \<^verbatim>\<open>try\<close> block: its outcome and the log queries it issued.\<close>

definition fetchEventsFromNetwork_try ::
  "config \<Rightarrow> client \<Rightarrow> string \<Rightarrow> string \<Rightarrow> string option
     \<Rightarrow> (error + TransactionEvent list) \<times> query list" where
  "fetchEventsFromNetwork_try cfg c contractAddress networkKey merchantAddress =
     (case getBlockNumber c of
        Inl e \<Rightarrow> (Inl e, [])
      | Inr currentBlock \<Rightarrow>
          (let startBlock = startBlockOf cfg networkKey;
               (r, qs) = forward_loop c contractAddress (receiverArgs merchantAddress)
                           currentBlock startBlock [] []
           in case r of
                Inl e \<Rightarrow> (Inl e, qs)
              | Inr allEvents \<Rightarrow> (mapE (decodeLog (NETWORKS cfg networkKey)) allEvents, qs)))"

text \<open>With its \<^verbatim>\<open>catch\<close>: any exception gives the empty array.\<close>

definition fetchEventsFromNetwork ::
  "config \<Rightarrow> client \<Rightarrow> string \<Rightarrow> string \<Rightarrow> string option \<Rightarrow> TransactionEvent list" where
  "fetchEventsFromNetwork cfg c contractAddress networkKey merchantAddress =
     (case fst (fetchEventsFromNetwork_try cfg c contractAddress networkKey merchantAddress) of
        Inl err \<Rightarrow> []
      | Inr events \<Rightarrow> events)"

text \<open>
  The three scans never reject, so \<^verbatim>\<open>Promise.all\<close> resolves with their three
  arrays. The outer \<^verbatim>\<open>catch\<close> rethrows what it catches, so the result type keeps
  the exception; nothing inside this \<^verbatim>\<open>try\<close> throws, and the result is the
  concatenation.
\<close>

definition fetchStableCoinPurchases ::
  "config \<Rightarrow> clients \<Rightarrow> string option \<Rightarrow> error + TransactionEvent list" where
  "fetchStableCoinPurchases cfg cs merchantAddress =
     (let sepoliaEvents = fetchEventsFromNetwork cfg (sepoliaClient cs)
                            (CONTRACTS_stablepay cfg) ''sepolia'' merchantAddress;
          etcEvents = fetchEventsFromNetwork cfg (etcClient cs)
                            (CONTRACTS_stablepay_etc cfg) ''ethereum-classic'' merchantAddress;
          mordorEvents = fetchEventsFromNetwork cfg (mordorClient cs)
                            (CONTRACTS_stablepay_mordor cfg) ''mordor'' merchantAddress;
          allEvents = sepoliaEvents @ etcEvents @ mordorEvents
      in Inr allEvents)"

subsection \<open>Block timestamps\<close>

text \<open>
  \<^verbatim>\<open>getBlockTimestamp\<close>: the \<^verbatim>\<open>Date\<close> of the block's timestamp in
  milliseconds, and on any exception \<^verbatim>\<open>new Date()\<close>; \<open>now bn\<close> is the reading
  of the wall clock, a valid time, when the lookup of block \<open>bn\<close> fails.
  \<^verbatim>\<open>Number(block.timestamp) * 1000\<close> is the exact product wherever it is within
  the range of a \<^verbatim>\<open>Date\<close> (such numbers are below \<open>2\<close> to the power 53), and
  beyond that range also the rounded product is beyond it: the \<^verbatim>\<open>Date\<close> is that
  of the exact product.
\<close>

definition getBlockTimestamp :: "client \<Rightarrow> (int \<Rightarrow> int) \<Rightarrow> int \<Rightarrow> date" where
  "getBlockTimestamp c now bn =
     (case getBlock c bn of Inl e \<Rightarrow> Date (now bn) | Inr ts \<Rightarrow> newDate (ts * 1000))"

text \<open>
  The loop over the batches of 20 block numbers; the lookups of one batch each set
  their own key of the map.
\<close>

function attach_loop ::
  "client \<Rightarrow> (int \<Rightarrow> int) \<Rightarrow> int list \<Rightarrow> nat \<Rightarrow> (int \<rightharpoonup> date) \<Rightarrow> (int \<rightharpoonup> date)" where
  "attach_loop c now uniqueBlocks i blockTimestamps =
     (if i < length uniqueBlocks then
        (let batch = take 20 (drop i uniqueBlocks)
         in attach_loop c now uniqueBlocks (i + 20)
              (foldl (\<lambda>m bn. m(bn \<mapsto> getBlockTimestamp c now bn)) blockTimestamps batch))
      else blockTimestamps)"
  by pat_completeness auto
termination
  by (relation "measure (\<lambda>(c, now, uniqueBlocks, i, blockTimestamps).
        length uniqueBlocks - i)") auto

definition attachTimestamps ::
  "client \<Rightarrow> (int \<Rightarrow> int) \<Rightarrow> TransactionEvent list \<Rightarrow> TransactionEvent list" where
  "attachTimestamps c now events =
     (let uniqueBlocks = uniq (map blockNumber events);
          blockTimestamps = attach_loop c now uniqueBlocks 0 Map.empty
      in map (\<lambda>e. e\<lparr>timestamp := blockTimestamps (blockNumber e)\<rparr>) events)"

subsection \<open>The reverse scan\<close>

text \<open>\<^verbatim>\<open>limit !== 'all' && collectedEvents.length >= limit\<close>.\<close>

definition limit_reached :: "limit \<Rightarrow> nat \<Rightarrow> bool" where
  "limit_reached lim n = (case lim of LimitAll \<Rightarrow> False | LimitNum k \<Rightarrow> int n \<ge> k)"

text \<open>
  The \<^verbatim>\<open>while (toBlock >= startBlock)\<close> loop of \<^verbatim>\<open>fetchEventsFromNetworkReverse\<close>,
  with its two \<^verbatim>\<open>break\<close>s.
\<close>

function reverse_loop ::
  "client \<Rightarrow> string \<Rightarrow> string option \<Rightarrow> limit \<Rightarrow> int \<Rightarrow> int \<Rightarrow> rawlog list \<Rightarrow> query list
     \<Rightarrow> (error + rawlog list) \<times> query list" where
  "reverse_loop c address args lim startBlock toBlock collectedEvents qs =
     (if toBlock \<ge> startBlock then
        (let fromBlock = (if toBlock - 50000 < startBlock then startBlock else toBlock - 50000)
         in case getLogs c address args fromBlock toBlock of
              Inl e \<Rightarrow> (Inl e, qs @ [(fromBlock, toBlock)])
            | Inr purchaseEvents \<Rightarrow>
                (if limit_reached lim (length (collectedEvents @ purchaseEvents))
                 then (Inr (collectedEvents @ purchaseEvents), qs @ [(fromBlock, toBlock)])
                 else if fromBlock \<le> startBlock
                 then (Inr (collectedEvents @ purchaseEvents), qs @ [(fromBlock, toBlock)])
                 else reverse_loop c address args lim startBlock (fromBlock - 1)
                        (collectedEvents @ purchaseEvents) (qs @ [(fromBlock, toBlock)])))
      else (Inr collectedEvents, qs))"
  by pat_completeness auto
termination
  by (relation "measure (\<lambda>(c, address, args, lim, startBlock, toBlock, collectedEvents, qs).
        nat (toBlock - startBlock + 1))") (auto split: if_splits)

text \<open>\<^verbatim>\<open>(a, b) => Number(b.blockNumber - a.blockNumber)\<close>: the sign is that of the difference.\<close>

definition cmp_blockNumber :: "rawlog \<Rightarrow> rawlog \<Rightarrow> int" where
  "cmp_blockNumber a b = log_blockNumber b - log_blockNumber a"

definition apply_limit :: "limit \<Rightarrow> 'a list \<Rightarrow> 'a list" where
  "apply_limit lim xs = (case lim of LimitAll \<Rightarrow> xs | LimitNum k \<Rightarrow> slice0 xs k)"

definition fetchEventsFromNetworkReverse_try ::
  "config \<Rightarrow> client \<Rightarrow> (int \<Rightarrow> int) \<Rightarrow> string \<Rightarrow> string \<Rightarrow> limit \<Rightarrow> string option
     \<Rightarrow> (error + TransactionEvent list) \<times> query list" where
  "fetchEventsFromNetworkReverse_try cfg c now contractAddress networkKey lim merchantAddress =
     (case getBlockNumber c of
        Inl e \<Rightarrow> (Inl e, [])
      | Inr currentBlock \<Rightarrow>
          (let startBlock = startBlockOf cfg networkKey;
               (r, qs) = reverse_loop c contractAddress (receiverArgs merchantAddress) lim
                           startBlock currentBlock [] []
           in case r of
                Inl e \<Rightarrow> (Inl e, qs)
              | Inr collected \<Rightarrow>
                  (let collectedEvents = apply_limit lim (sort_js cmp_blockNumber collected)
                   in case mapE (decodeLog (NETWORKS cfg networkKey)) collectedEvents of
                        Inl e \<Rightarrow> (Inl e, qs)
                      | Inr mappedEvents \<Rightarrow> (Inr (attachTimestamps c now mappedEvents), qs))))"

definition fetchEventsFromNetworkReverse ::
  "config \<Rightarrow> client \<Rightarrow> (int \<Rightarrow> int) \<Rightarrow> string \<Rightarrow> string \<Rightarrow> limit \<Rightarrow> string option
     \<Rightarrow> TransactionEvent list" where
  "fetchEventsFromNetworkReverse cfg c now contractAddress networkKey lim merchantAddress =
     (case fst (fetchEventsFromNetworkReverse_try cfg c now contractAddress networkKey lim
                  merchantAddress) of
        Inl err \<Rightarrow> []
      | Inr events \<Rightarrow> events)"

subsection \<open>The export\<close>



subsection \<open>The two scan loops with a budget of iterations\<close>

text \<open>
  The same two loops, where each test of the loop condition uses one unit of a budget:
  \<open>None\<close> when the budget is used up before the loop has ended. They state that
  the loops end: a large enough budget gives the result.
\<close>

fun forward_loop_fuel ::
  "nat \<Rightarrow> client \<Rightarrow> string \<Rightarrow> string option \<Rightarrow> int \<Rightarrow> int \<Rightarrow> rawlog list \<Rightarrow> query list
     \<Rightarrow> ((error + rawlog list) \<times> query list) option" where
  "forward_loop_fuel 0 c address args currentBlock fromBlock allEvents qs = None"
| "forward_loop_fuel (Suc n) c address args currentBlock fromBlock allEvents qs =
     (if fromBlock \<le> currentBlock then
        (let toBlock = (if fromBlock + 49999 > currentBlock then currentBlock
                        else fromBlock + 49999)
         in case getLogs c address args fromBlock toBlock of
              Inl e \<Rightarrow> Some (Inl e, qs @ [(fromBlock, toBlock)])
            | Inr purchaseEvents \<Rightarrow>
                forward_loop_fuel n c address args currentBlock (toBlock + 1)
                  (allEvents @ purchaseEvents) (qs @ [(fromBlock, toBlock)]))
      else Some (Inr allEvents, qs))"

fun reverse_loop_fuel ::
  "nat \<Rightarrow> client \<Rightarrow> string \<Rightarrow> string option \<Rightarrow> limit \<Rightarrow> int \<Rightarrow> int \<Rightarrow> rawlog list
     \<Rightarrow> query list \<Rightarrow> ((error + rawlog list) \<times> query list) option" where
  "reverse_loop_fuel 0 c address args lim startBlock toBlock collectedEvents qs = None"
| "reverse_loop_fuel (Suc n) c address args lim startBlock toBlock collectedEvents qs =
     (if toBlock \<ge> startBlock then
        (let fromBlock = (if toBlock - 50000 < startBlock then startBlock else toBlock - 50000)
         in case getLogs c address args fromBlock toBlock of
              Inl e \<Rightarrow> Some (Inl e, qs @ [(fromBlock, toBlock)])
            | Inr purchaseEvents \<Rightarrow>
                (if limit_reached lim (length (collectedEvents @ purchaseEvents))
                 then Some (Inr (collectedEvents @ purchaseEvents), qs @ [(fromBlock, toBlock)])
                 else if fromBlock \<le> startBlock
                 then Some (Inr (collectedEvents @ purchaseEvents), qs @ [(fromBlock, toBlock)])
                 else reverse_loop_fuel n c address args lim startBlock (fromBlock - 1)
                        (collectedEvents @ purchaseEvents) (qs @ [(fromBlock, toBlock)])))
      else Some (Inr collectedEvents, qs))"

section \<open>Notions of the specification\<close>

text \<open>The blocks that a sequence of inclusive range queries asks for, in order.\<close>

definition blocks_of :: "query list \<Rightarrow> int list" where
  "blocks_of qs = concat (map (\<lambda>(fromBlock, toBlock). [fromBlock..toBlock]) qs)"

text \<open>
  The chunks of the forward scan as the specification has them: each is
  \<open>[fromBlock, min (fromBlock + 49999) currentHeight]\<close>, and the next starts at
  \<open>toBlock + 1\<close>.
\<close>

fun spec_forward_chunks :: "int \<Rightarrow> int \<Rightarrow> query list \<Rightarrow> bool" where
  "spec_forward_chunks currentHeight fromBlock [] = True"
| "spec_forward_chunks currentHeight fromBlock ((f, t) # qs) =
     (f = fromBlock \<and> t = min (fromBlock + 49999) currentHeight
      \<and> spec_forward_chunks currentHeight (t + 1) qs)"

text \<open>An event whose timestamp is present and is not the Invalid Date.\<close>

definition valid_timestamp :: "TransactionEvent \<Rightarrow> bool" where
  "valid_timestamp e = (case timestamp e of Some (Date t) \<Rightarrow> True | _ \<Rightarrow> False)"


text \<open>
  The events of the three reverse scans as the export concatenates them, before its
  global sort.
\<close>

definition scanned_events ::
  "config \<Rightarrow> clients \<Rightarrow> (string \<Rightarrow> int \<Rightarrow> int) \<Rightarrow> limit \<Rightarrow> string option
     \<Rightarrow> TransactionEvent list" where
  "scanned_events cfg cs now lim merchantAddress =
     fetchEventsFromNetworkReverse cfg (sepoliaClient cs) (now ''sepolia'')
       (CONTRACTS_stablepay cfg) ''sepolia'' lim merchantAddress
     @ fetchEventsFromNetworkReverse cfg (etcClient cs) (now ''ethereum-classic'')
       (CONTRACTS_stablepay_etc cfg) ''ethereum-classic'' lim merchantAddress
     @ fetchEventsFromNetworkReverse cfg (mordorClient cs) (now ''mordor'')
       (CONTRACTS_stablepay_mordor cfg) ''mordor'' lim merchantAddress"

text \<open>
  A client all of whose block timestamps, in milliseconds, are within the range of a
  \<^verbatim>\<open>Date\<close>.
\<close>

definition timestamps_in_range :: "client \<Rightarrow> bool" where
  "timestamps_in_range c =
     (\<forall>bn ts. getBlock c bn = Inr ts \<longrightarrow> \<bar>ts * 1000\<bar> \<le> 8640000000000000)"

text \<open>The number of blocks of an inclusive range query.\<close>

definition span :: "query \<Rightarrow> int" where
  "span q = snd q - fst q + 1"


text \<open>
  The logs of a chain that match a query: \<open>serves c address args logs\<close> says that
  every answer of the client to a log query is the part of \<open>logs\<close> (the matching
  log entries of the chain, in chain order) in the queried range; the client may still
  throw.
\<close>

definition in_range :: "int \<Rightarrow> int \<Rightarrow> rawlog \<Rightarrow> bool" where
  "in_range lo hi l = (lo \<le> log_blockNumber l \<and> log_blockNumber l \<le> hi)"

definition serves :: "client \<Rightarrow> string \<Rightarrow> string option \<Rightarrow> rawlog list \<Rightarrow> bool" where
  "serves c address args logs =
     (\<forall>f t ls. getLogs c address args f t = Inr ls \<longrightarrow> ls = filter (in_range f t) logs)"

text \<open>
  The number that a decimal notation with at most \<open>decimals\<close> fraction digits stands
  for, in units of \<open>10\<close> to the power \<open>- decimals\<close>: the digits before the point,
  followed by the fraction digits filled up with zeros.
\<close>

definition decimal_chars :: "char set" where
  "decimal_chars = set ''0123456789''"

definition digit_value :: "char \<Rightarrow> nat" where
  "digit_value c = of_char c - 48"

definition read_digits :: "string \<Rightarrow> nat" where
  "read_digits s = foldl (\<lambda>n c. 10 * n + digit_value c) 0 s"

definition read_fixed :: "nat \<Rightarrow> string \<Rightarrow> nat" where
  "read_fixed decimals s =
     (let integer = takeWhile (\<lambda>c. c \<noteq> CHR ''.'') s;
          fraction = drop 1 (dropWhile (\<lambda>c. c \<noteq> CHR ''.'') s)
      in read_digits (integer @ fraction @ replicate (decimals - length fraction) CHR ''0''))"


section \<open>Concrete inputs\<close>

text \<open>
  A configuration with the three networks, where only Sepolia has a deployment block,
  and clients that answer every call: \<open>quiet_client h\<close> is at height \<open>h\<close> and
  has no log.
\<close>

definition cfg0 :: config where
  "cfg0 =
     \<lparr> NETWORKS = [''sepolia'' \<mapsto> \<lparr>net_chainId = 11155111, net_name = ''Sepolia''\<rparr>,
                   ''ethereum-classic'' \<mapsto> \<lparr>net_chainId = 61, net_name = ''Ethereum Classic''\<rparr>,
                   ''mordor'' \<mapsto> \<lparr>net_chainId = 63, net_name = ''Mordor Testnet''\<rparr>],
       CONTRACTS_stablepay = ''0xS'',
       CONTRACTS_stablepay_etc = ''0xE'',
       CONTRACTS_stablepay_mordor = ''0xM'',
       DEPLOYMENT_BLOCKS = [''sepolia'' \<mapsto> 10] \<rparr>"

definition quiet_client :: "int \<Rightarrow> client" where
  "quiet_client h =
     \<lparr> getBlockNumber = Inr h,
       getLogs = (\<lambda>address args fromBlock toBlock. Inr []),
       getBlock = (\<lambda>bn. Inr 0) \<rparr>"


text \<open>
  A purchase log at block \<open>bn\<close>: the receiver topic has letters of both cases, the
  data are 123456789 raw stable-coin units and \<open>10\<close> to the power 18 raw base-coin
  units.
\<close>

definition purchase_log :: "int \<Rightarrow> rawlog" where
  "purchase_log bn =
     \<lparr> log_topics =
         [''0xsig'',
          ''0x0000000000000000000000001111111111111111111111111111111111111111'',
          ''0x000000000000000000000000AbCdEf0123456789abcdef0123456789abcdef01''],
       log_data =
         ''0x00000000000000000000000000000000000000000000000000000000075bcd15''
         @ ''0000000000000000000000000000000000000000000000000de0b6b3a7640000'',
       log_blockNumber = bn,
       log_transactionHash = ''0xtx'' \<rparr>"

text \<open>
  A client at height \<open>h\<close> that serves the logs of a chain and whose block \<open>bn\<close>
  has the timestamp \<open>1700000000 + 12 * bn\<close>; a client whose log queries throw; and
  a client that throws on queries that start below block 10000.
\<close>

definition chain_client :: "int \<Rightarrow> rawlog list \<Rightarrow> client" where
  "chain_client h logs =
     \<lparr> getBlockNumber = Inr h,
       getLogs = (\<lambda>address args fromBlock toBlock. Inr (filter (in_range fromBlock toBlock) logs)),
       getBlock = (\<lambda>bn. Inr (1700000000 + 12 * bn)) \<rparr>"

definition failing_client :: "int \<Rightarrow> client" where
  "failing_client h =
     \<lparr> getBlockNumber = Inr h,
       getLogs = (\<lambda>address args fromBlock toBlock. Inl RpcError),
       getBlock = (\<lambda>bn. Inl RpcError) \<rparr>"

definition flaky_client :: "int \<Rightarrow> rawlog list \<Rightarrow> client" where
  "flaky_client h logs =
     \<lparr> getBlockNumber = Inr h,
       getLogs = (\<lambda>address args fromBlock toBlock.
                  if fromBlock < 10000 then Inl RpcError
                  else Inr (filter (in_range fromBlock toBlock) logs)),
       getBlock = (\<lambda>bn. Inr (1700000000 + 12 * bn)) \<rparr>"


text \<open>
  The clients of three scenarios: five purchases on Sepolia, queries that throw on
  Ethereum Classic and three purchases on Mordor; purchases at distant blocks of two
  networks; and the logs of one chain.
\<close>

definition scenario_clients :: clients where
  "scenario_clients =
     \<lparr> sepoliaClient = chain_client 100 (map purchase_log [20, 30, 40, 50, 60]),
       etcClient = failing_client 100,
       mordorClient = chain_client 100 (map purchase_log [1, 2, 3]) \<rparr>"


definition chain_logs :: "rawlog list" where
  "chain_logs = map purchase_log [100, 55000, 20000]"




section \<open>The timestamp resolver\<close>

declare forward_loop.simps [simp del]
declare reverse_loop.simps [simp del]
declare attach_loop.simps [simp del]

lemma foldl_upd_lookup:
  "foldl (\<lambda>m bn. m(bn \<mapsto> f bn)) m xs k = (if k \<in> set xs then Some (f k) else m k)"
  by (induction xs arbitrary: m) auto

lemma set_drop_batch:
  "set (drop i xs) = set (take n (drop i xs)) \<union> set (drop (i + n) xs)"
proof -
  have "set (take n (drop i xs) @ drop n (drop i xs)) = set (drop i xs)"
    by (simp only: append_take_drop_id)
  then show ?thesis
    by (simp add: add.commute)
qed

lemma attach_loop_lookup:
  "attach_loop c now ub i m k =
     (if k \<in> set (drop i ub) then Some (getBlockTimestamp c now k) else m k)"
proof (induction c now ub i m rule: attach_loop.induct)
  case (1 c now ub i m)
  show ?case
  proof (cases "i < length ub")
    case True
    have batch: "set (drop i ub) = set (take 20 (drop i ub)) \<union> set (drop (i + 20) ub)"
      by (rule set_drop_batch)
    have "attach_loop c now ub i m k =
            attach_loop c now ub (i + 20)
              (foldl (\<lambda>m bn. m(bn \<mapsto> getBlockTimestamp c now bn)) m (take 20 (drop i ub))) k"
      using True by (subst attach_loop.simps) simp
    also have "\<dots> = (if k \<in> set (drop (i + 20) ub) then Some (getBlockTimestamp c now k)
                     else foldl (\<lambda>m bn. m(bn \<mapsto> getBlockTimestamp c now bn)) m
                            (take 20 (drop i ub)) k)"
      by (rule "1.IH" [OF True refl])
    also have "\<dots> = (if k \<in> set (drop i ub) then Some (getBlockTimestamp c now k) else m k)"
      by (simp add: foldl_upd_lookup batch)
    finally show ?thesis .
  next
    case False
    then show ?thesis
      by (subst attach_loop.simps) simp
  qed
qed

lemma set_uniq: "set (uniq xs) = set xs"
  by (simp add: uniq_def)

lemma attachTimestamps_eq:
  "attachTimestamps c now events =
     map (\<lambda>e. e\<lparr>timestamp := Some (getBlockTimestamp c now (blockNumber e))\<rparr>) events"
  by (simp add: attachTimestamps_def Let_def attach_loop_lookup set_uniq)

text \<open>
  Claim C7: attachTimestamps completes for every list of events and propagates no
  failure of a block lookup. Every returned event carries a timestamp: the
  \<^verbatim>\<open>Date\<close> of the block's timestamp (in milliseconds) where the lookup of its
  block number succeeds, and the reading of the wall clock where that lookup throws,
  whatever happens to the lookups of the other blocks.
\<close>

theorem attachTimestamps_fallback:
  "map timestamp (attachTimestamps c now events) =
     map (\<lambda>e. Some (case getBlock c (blockNumber e) of
                       Inl err \<Rightarrow> Date (now (blockNumber e))
                     | Inr ts \<Rightarrow> newDate (ts * 1000))) events"
  by (simp add: attachTimestamps_eq getBlockTimestamp_def)

text \<open>
  Claim C9: attachTimestamps returns a list of the same length and in the same order,
  in which every field of every event other than the timestamp (buyer, receiver,
  amountSC, amountBC, blockNumber, transactionHash, chainId, networkName) is unchanged.
\<close>

theorem attachTimestamps_frame:
  "length (attachTimestamps c now events) = length events
   \<and> map buyer (attachTimestamps c now events) = map buyer events
   \<and> map receiver (attachTimestamps c now events) = map receiver events
   \<and> map amountSC (attachTimestamps c now events) = map amountSC events
   \<and> map amountBC (attachTimestamps c now events) = map amountBC events
   \<and> map blockNumber (attachTimestamps c now events) = map blockNumber events
   \<and> map transactionHash (attachTimestamps c now events) = map transactionHash events
   \<and> map chainId (attachTimestamps c now events) = map chainId events
   \<and> map networkName (attachTimestamps c now events) = map networkName events"
  by (simp add: attachTimestamps_eq)

section \<open>Termination of the scan loops\<close>

lemma forward_loop_fuel_enough:
  "nat (currentBlock - fromBlock + 1) < n \<Longrightarrow>
   forward_loop_fuel n c address args currentBlock fromBlock allEvents qs =
     Some (forward_loop c address args currentBlock fromBlock allEvents qs)"
proof (induction c address args currentBlock fromBlock allEvents qs arbitrary: n
       rule: forward_loop.induct)
  case (1 c address args currentBlock fromBlock allEvents qs)
  from "1.prems" obtain k where n: "n = Suc k"
    by (cases n) auto
  show ?case
  proof (cases "fromBlock \<le> currentBlock")
    case False
    then show ?thesis
      unfolding n by (subst forward_loop.simps) simp
  next
    case True
    define toBlock where
      "toBlock = (if fromBlock + 49999 > currentBlock then currentBlock else fromBlock + 49999)"
    have less: "nat (currentBlock - (toBlock + 1) + 1) < k"
      using "1.prems" True unfolding n toBlock_def by (auto split: if_splits)
    show ?thesis
    proof (cases "getLogs c address args fromBlock toBlock")
      case (Inl e)
      then show ?thesis
        using True unfolding n
        by (subst forward_loop.simps) (simp add: toBlock_def Let_def)
    next
      case (Inr purchaseEvents)
      have "forward_loop_fuel k c address args currentBlock (toBlock + 1)
              (allEvents @ purchaseEvents) (qs @ [(fromBlock, toBlock)]) =
            Some (forward_loop c address args currentBlock (toBlock + 1)
              (allEvents @ purchaseEvents) (qs @ [(fromBlock, toBlock)]))"
        using "1.IH" [OF True toBlock_def Inr less] .
      then show ?thesis
        using True Inr unfolding n
        by (subst forward_loop.simps) (simp add: toBlock_def Let_def)
    qed
  qed
qed

lemma reverse_loop_fuel_enough:
  "nat (toBlock - startBlock + 1) < n \<Longrightarrow>
   reverse_loop_fuel n c address args lim startBlock toBlock collectedEvents qs =
     Some (reverse_loop c address args lim startBlock toBlock collectedEvents qs)"
proof (induction c address args lim startBlock toBlock collectedEvents qs arbitrary: n
       rule: reverse_loop.induct)
  case (1 c address args lim startBlock toBlock collectedEvents qs)
  from "1.prems" obtain k where n: "n = Suc k"
    by (cases n) auto
  show ?case
  proof (cases "toBlock \<ge> startBlock")
    case False
    then show ?thesis
      unfolding n by (subst reverse_loop.simps) simp
  next
    case True
    define fromBlock where
      "fromBlock = (if toBlock - 50000 < startBlock then startBlock else toBlock - 50000)"
    show ?thesis
    proof (cases "getLogs c address args fromBlock toBlock")
      case (Inl e)
      then show ?thesis
        using True unfolding n
        by (subst reverse_loop.simps) (simp add: fromBlock_def Let_def)
    next
      case (Inr purchaseEvents)
      show ?thesis
      proof (cases "limit_reached lim (length (collectedEvents @ purchaseEvents))
                    \<or> fromBlock \<le> startBlock")
        case True
        then show ?thesis
          using \<open>startBlock \<le> toBlock\<close> Inr unfolding n
          by (subst reverse_loop.simps) (auto simp add: fromBlock_def Let_def)
      next
        case False
        then have nl: "\<not> limit_reached lim (length (collectedEvents @ purchaseEvents))"
          and nf: "\<not> fromBlock \<le> startBlock"
          by simp_all
        have less: "nat (fromBlock - 1 - startBlock + 1) < k"
          using "1.prems" \<open>startBlock \<le> toBlock\<close> nf unfolding n fromBlock_def
          by (auto split: if_splits)
        have "reverse_loop_fuel k c address args lim startBlock (fromBlock - 1)
                (collectedEvents @ purchaseEvents) (qs @ [(fromBlock, toBlock)]) =
              Some (reverse_loop c address args lim startBlock (fromBlock - 1)
                (collectedEvents @ purchaseEvents) (qs @ [(fromBlock, toBlock)]))"
          using "1.IH" [OF \<open>startBlock \<le> toBlock\<close> fromBlock_def Inr nl nf less] .
        then show ?thesis
          using \<open>startBlock \<le> toBlock\<close> Inr nl nf unfolding n
          by (subst reverse_loop.simps) (simp add: fromBlock_def Let_def)
      qed
    qed
  qed
qed

text \<open>
  Claim C10: both scan loops terminate, for every current block and every deployment
  start block. The forward loop moves \<open>fromBlock\<close> up by at least one block in each
  iteration, the reverse loop breaks or moves \<open>toBlock\<close> down by at least one: a
  budget of \<open>currentBlock - startBlock + 2\<close> tests of the loop condition is enough
  for either loop to end with its result.
\<close>

theorem scan_loops_terminate:
  "forward_loop_fuel (nat (currentBlock - startBlock + 1) + 1) c address args
      currentBlock startBlock allEvents qs =
     Some (forward_loop c address args currentBlock startBlock allEvents qs)
   \<and> reverse_loop_fuel (nat (currentBlock - startBlock + 1) + 1) c address args lim
      startBlock currentBlock collectedEvents qs' =
     Some (reverse_loop c address args lim startBlock currentBlock collectedEvents qs')"
proof (intro conjI)
  show "forward_loop_fuel (nat (currentBlock - startBlock + 1) + 1) c address args
          currentBlock startBlock allEvents qs =
        Some (forward_loop c address args currentBlock startBlock allEvents qs)"
    by (rule forward_loop_fuel_enough) arith
  show "reverse_loop_fuel (nat (currentBlock - startBlock + 1) + 1) c address args lim
          startBlock currentBlock collectedEvents qs' =
        Some (reverse_loop c address args lim startBlock currentBlock collectedEvents qs')"
    by (rule reverse_loop_fuel_enough) arith
qed


section \<open>The block ranges of the scans\<close>

lemma blocks_of_snoc: "blocks_of (qs @ [(f, t)]) = blocks_of qs @ [f..t]"
  by (simp add: blocks_of_def)

lemma blocks_of_Cons: "blocks_of ((f, t) # qs) = [f..t] @ blocks_of qs"
  by (simp add: blocks_of_def)

lemma upto_join: "f \<le> t \<Longrightarrow> t \<le> k \<Longrightarrow> [f..t] @ [t + 1..k] = [f..k]"
  by (simp add: upto_split2 [of f t k])

lemma forward_loop_blocks:
  "\<forall>q \<in> set (snd (forward_loop c address args currentBlock fromBlock allEvents qs)).
      \<not> isl (getLogs c address args (fst q) (snd q)) \<Longrightarrow>
   blocks_of (snd (forward_loop c address args currentBlock fromBlock allEvents qs)) =
     blocks_of qs @ [fromBlock..currentBlock]"
proof (induction c address args currentBlock fromBlock allEvents qs
       rule: forward_loop.induct)
  case (1 c address args currentBlock fromBlock allEvents qs)
  show ?case
  proof (cases "fromBlock \<le> currentBlock")
    case False
    then show ?thesis
      by (subst forward_loop.simps) simp
  next
    case True
    define toBlock where
      "toBlock = (if fromBlock + 49999 > currentBlock then currentBlock else fromBlock + 49999)"
    have bounds: "fromBlock \<le> toBlock" "toBlock \<le> currentBlock"
      using True by (auto simp: toBlock_def)
    show ?thesis
    proof (cases "getLogs c address args fromBlock toBlock")
      case (Inl e)
      have "snd (forward_loop c address args currentBlock fromBlock allEvents qs) =
              qs @ [(fromBlock, toBlock)]"
        using True Inl by (subst forward_loop.simps) (simp add: toBlock_def Let_def)
      with "1.prems" Inl show ?thesis
        by simp
    next
      case (Inr purchaseEvents)
      have unfold: "forward_loop c address args currentBlock fromBlock allEvents qs =
              forward_loop c address args currentBlock (toBlock + 1)
                (allEvents @ purchaseEvents) (qs @ [(fromBlock, toBlock)])"
        using True Inr by (subst forward_loop.simps) (simp add: toBlock_def Let_def)
      have "blocks_of (snd (forward_loop c address args currentBlock (toBlock + 1)
                (allEvents @ purchaseEvents) (qs @ [(fromBlock, toBlock)]))) =
            blocks_of (qs @ [(fromBlock, toBlock)]) @ [toBlock + 1..currentBlock]"
        using "1.IH" [OF True toBlock_def Inr] "1.prems" unfolding unfold .
      then show ?thesis
        unfolding unfold using bounds by (simp add: blocks_of_snoc upto_join)
    qed
  qed
qed

lemma forward_loop_chunks:
  "\<exists>new. snd (forward_loop c address args currentBlock fromBlock allEvents qs) = qs @ new
      \<and> spec_forward_chunks currentBlock fromBlock new"
proof (induction c address args currentBlock fromBlock allEvents qs
       rule: forward_loop.induct)
  case (1 c address args currentBlock fromBlock allEvents qs)
  show ?case
  proof (cases "fromBlock \<le> currentBlock")
    case False
    then have "snd (forward_loop c address args currentBlock fromBlock allEvents qs) = qs @ []"
      by (subst forward_loop.simps) simp
    then show ?thesis
      by (metis spec_forward_chunks.simps(1))
  next
    case True
    define toBlock where
      "toBlock = (if fromBlock + 49999 > currentBlock then currentBlock else fromBlock + 49999)"
    have tb: "toBlock = min (fromBlock + 49999) currentBlock"
      by (auto simp: toBlock_def)
    show ?thesis
    proof (cases "getLogs c address args fromBlock toBlock")
      case (Inl e)
      have "snd (forward_loop c address args currentBlock fromBlock allEvents qs) =
              qs @ [(fromBlock, toBlock)]"
        using True Inl by (subst forward_loop.simps) (simp add: toBlock_def Let_def)
      moreover have "spec_forward_chunks currentBlock fromBlock [(fromBlock, toBlock)]"
        by (simp add: tb)
      ultimately show ?thesis
        by blast
    next
      case (Inr purchaseEvents)
      have unfold: "forward_loop c address args currentBlock fromBlock allEvents qs =
              forward_loop c address args currentBlock (toBlock + 1)
                (allEvents @ purchaseEvents) (qs @ [(fromBlock, toBlock)])"
        using True Inr by (subst forward_loop.simps) (simp add: toBlock_def Let_def)
      from "1.IH" [OF True toBlock_def Inr] obtain new where
        new: "snd (forward_loop c address args currentBlock (toBlock + 1)
                (allEvents @ purchaseEvents) (qs @ [(fromBlock, toBlock)])) =
              (qs @ [(fromBlock, toBlock)]) @ new"
        and chunks: "spec_forward_chunks currentBlock (toBlock + 1) new"
        by blast
      have "snd (forward_loop c address args currentBlock fromBlock allEvents qs) =
              qs @ ((fromBlock, toBlock) # new)"
        unfolding unfold new by simp
      moreover have "spec_forward_chunks currentBlock fromBlock ((fromBlock, toBlock) # new)"
        using chunks by (simp add: tb)
      ultimately show ?thesis
        by blast
    qed
  qed
qed

lemma reverse_loop_blocks:
  "lim = LimitAll \<Longrightarrow>
   \<forall>q \<in> set (snd (reverse_loop c address args lim startBlock toBlock collectedEvents qs)).
      \<not> isl (getLogs c address args (fst q) (snd q)) \<Longrightarrow>
   blocks_of (rev (snd (reverse_loop c address args lim startBlock toBlock
      collectedEvents qs))) =
     [startBlock..toBlock] @ blocks_of (rev qs)"
proof (induction c address args lim startBlock toBlock collectedEvents qs
       rule: reverse_loop.induct)
  case (1 c address args lim startBlock toBlock collectedEvents qs)
  note lim = \<open>lim = LimitAll\<close>
  show ?case
  proof (cases "toBlock \<ge> startBlock")
    case False
    then show ?thesis
      by (subst reverse_loop.simps) simp
  next
    case True
    define fromBlock where
      "fromBlock = (if toBlock - 50000 < startBlock then startBlock else toBlock - 50000)"
    have bounds: "startBlock \<le> fromBlock" "fromBlock \<le> toBlock"
      using True by (auto simp: fromBlock_def)
    show ?thesis
    proof (cases "getLogs c address args fromBlock toBlock")
      case (Inl e)
      have "snd (reverse_loop c address args lim startBlock toBlock collectedEvents qs) =
              qs @ [(fromBlock, toBlock)]"
        using True Inl by (subst reverse_loop.simps) (simp add: fromBlock_def Let_def)
      with "1.prems" Inl show ?thesis
        by simp
    next
      case (Inr purchaseEvents)
      have nl: "\<not> limit_reached lim (length (collectedEvents @ purchaseEvents))"
        by (simp add: limit_reached_def lim)
      show ?thesis
      proof (cases "fromBlock \<le> startBlock")
        case True
        with bounds have eq: "fromBlock = startBlock"
          by simp
        have "snd (reverse_loop c address args lim startBlock toBlock collectedEvents qs) =
                qs @ [(fromBlock, toBlock)]"
          using \<open>startBlock \<le> toBlock\<close> Inr nl True
          by (subst reverse_loop.simps) (simp add: fromBlock_def Let_def)
        then show ?thesis
          by (simp add: blocks_of_Cons eq)
      next
        case False
        have unfold: "reverse_loop c address args lim startBlock toBlock collectedEvents qs =
                reverse_loop c address args lim startBlock (fromBlock - 1)
                  (collectedEvents @ purchaseEvents) (qs @ [(fromBlock, toBlock)])"
          using \<open>startBlock \<le> toBlock\<close> Inr nl False
          by (subst reverse_loop.simps) (simp add: fromBlock_def Let_def)
        have "blocks_of (rev (snd (reverse_loop c address args lim startBlock (fromBlock - 1)
                  (collectedEvents @ purchaseEvents) (qs @ [(fromBlock, toBlock)])))) =
              [startBlock..fromBlock - 1] @ blocks_of (rev (qs @ [(fromBlock, toBlock)]))"
          using "1.IH" [OF \<open>startBlock \<le> toBlock\<close> fromBlock_def Inr nl False lim] "1.prems"(2)
          unfolding unfold .
        moreover have "[startBlock..fromBlock - 1] @ [fromBlock..toBlock] = [startBlock..toBlock]"
          using upto_join [of startBlock "fromBlock - 1" toBlock] False bounds by simp
        ultimately show ?thesis
          unfolding unfold by (simp add: blocks_of_Cons flip: append_assoc)
      qed
    qed
  qed
qed

lemma forward_try_queries:
  "getBlockNumber c = Inr currentBlock \<Longrightarrow>
   snd (fetchEventsFromNetwork_try cfg c address networkKey merchantAddress) =
     snd (forward_loop c address (receiverArgs merchantAddress) currentBlock
            (startBlockOf cfg networkKey) [] [])"
  by (simp add: fetchEventsFromNetwork_try_def Let_def split: prod.splits sum.splits)

lemma reverse_try_queries:
  "getBlockNumber c = Inr currentBlock \<Longrightarrow>
   snd (fetchEventsFromNetworkReverse_try cfg c now address networkKey lim merchantAddress) =
     snd (reverse_loop c address (receiverArgs merchantAddress) lim
            (startBlockOf cfg networkKey) currentBlock [] [])"
  by (simp add: fetchEventsFromNetworkReverse_try_def Let_def split: prod.splits sum.splits)

lemma blocks_of_Nil: "blocks_of [] = []"
  by (simp add: blocks_of_def)

text \<open>
  Claim C2: the log queries of a scan that runs to completion (every query it issues
  is answered) cover the range from the deployment start block to the block height read
  at the start exactly: the queried ranges, in ascending order, list every block of
  \<open>[startBlock..currentBlock]\<close> once, for the forward scan and for the reverse scan
  with limit \<open>all\<close> (whose queries run downwards). The chunks of the forward scan are
  \<open>[fromBlock, min (fromBlock + 49999) currentBlock]\<close>, each starting one block after
  the end of the one before.
\<close>

theorem scans_cover_range:
  assumes "getBlockNumber c = Inr currentBlock"
    and "fwd = snd (fetchEventsFromNetwork_try cfg c address networkKey merchantAddress)"
    and "bwd = snd (fetchEventsFromNetworkReverse_try cfg c now address networkKey LimitAll
                      merchantAddress)"
  shows "spec_forward_chunks currentBlock (startBlockOf cfg networkKey) fwd
    \<and> ((\<forall>q \<in> set fwd. \<not> isl (getLogs c address (receiverArgs merchantAddress) (fst q) (snd q)))
        \<longrightarrow> blocks_of fwd = [startBlockOf cfg networkKey..currentBlock])
    \<and> ((\<forall>q \<in> set bwd. \<not> isl (getLogs c address (receiverArgs merchantAddress) (fst q) (snd q)))
        \<longrightarrow> blocks_of (rev bwd) = [startBlockOf cfg networkKey..currentBlock])"
proof (intro conjI impI)
  have fwd: "fwd = snd (forward_loop c address (receiverArgs merchantAddress) currentBlock
                     (startBlockOf cfg networkKey) [] [])"
    using assms(1,2) by (simp add: forward_try_queries)
  have bwd: "bwd = snd (reverse_loop c address (receiverArgs merchantAddress) LimitAll
                     (startBlockOf cfg networkKey) currentBlock [] [])"
    using assms(1,3) by (simp add: reverse_try_queries)
  show "spec_forward_chunks currentBlock (startBlockOf cfg networkKey) fwd"
    using forward_loop_chunks [of c address "receiverArgs merchantAddress" currentBlock
        "startBlockOf cfg networkKey" "[]" "[]"]
    unfolding fwd by auto
  show "blocks_of fwd = [startBlockOf cfg networkKey..currentBlock]"
    if "\<forall>q \<in> set fwd. \<not> isl (getLogs c address (receiverArgs merchantAddress) (fst q) (snd q))"
    using forward_loop_blocks [of c address "receiverArgs merchantAddress" currentBlock
        "startBlockOf cfg networkKey" "[]" "[]"] that
    unfolding fwd by (simp add: blocks_of_Nil)
  show "blocks_of (rev bwd) = [startBlockOf cfg networkKey..currentBlock]"
    if "\<forall>q \<in> set bwd. \<not> isl (getLogs c address (receiverArgs merchantAddress) (fst q) (snd q))"
    using reverse_loop_blocks [of LimitAll c address "receiverArgs merchantAddress"
        "startBlockOf cfg networkKey" currentBlock "[]" "[]"] that
    unfolding bwd by (simp add: blocks_of_Nil)
qed

lemma quiet_forward:
  "snd (fetchEventsFromNetwork_try cfg0 (quiet_client 120000) ''0xS'' ''sepolia'' None) =
     [(10, 50009), (50010, 100009), (100010, 120000)]"
  by code_simp

lemma quiet_reverse:
  "snd (fetchEventsFromNetworkReverse_try cfg0 (quiet_client 120000) (\<lambda>bn. 0) ''0xS'' ''sepolia''
          LimitAll None) =
     [(70000, 120000), (19999, 69999), (10, 19998)]"
  by code_simp

theorem scans_cover_range_witness:
  "getBlockNumber (quiet_client 120000) = Inr 120000
   \<and> snd (fetchEventsFromNetwork_try cfg0 (quiet_client 120000) ''0xS'' ''sepolia'' None) =
       [(10, 50009), (50010, 100009), (100010, 120000)]
   \<and> snd (fetchEventsFromNetworkReverse_try cfg0 (quiet_client 120000) (\<lambda>bn. 0) ''0xS''
            ''sepolia'' LimitAll None) =
       [(70000, 120000), (19999, 69999), (10, 19998)]
   \<and> spec_forward_chunks 120000 10 [(10, 50009), (50010, 100009), (100010, 120000)]
   \<and> blocks_of [(10, 50009), (50010, 100009), (100010, 120000)] = [10..120000]
   \<and> blocks_of (rev [(70000, 120000), (19999, 69999), (10, 19998)]) = [10..120000]"
proof -
  have h: "getBlockNumber (quiet_client 120000) = Inr 120000"
    by (simp add: quiet_client_def)
  have ok: "\<not> isl (getLogs (quiet_client 120000) ''0xS'' (receiverArgs None) f t)" for f t
    by (simp add: quiet_client_def)
  have s: "startBlockOf cfg0 ''sepolia'' = 10"
    by (simp add: startBlockOf_def cfg0_def)
  note cover = scans_cover_range [OF h quiet_forward [symmetric] quiet_reverse [symmetric],
      unfolded s]
  from cover have c1: "spec_forward_chunks 120000 10 [(10, 50009), (50010, 100009), (100010, 120000)]"
    by (rule conjunct1)
  from cover ok have c2: "blocks_of [(10, 50009), (50010, 100009), (100010, 120000)] = [10..120000]"
    by blast
  from cover ok have c3: "blocks_of (rev [(70000, 120000), (19999, 69999), (10, 19998)]) = [10..120000]"
    by blast
  from h quiet_forward quiet_reverse c1 c2 c3 show ?thesis
    by (intro conjI)
qed

text \<open>
  Claim C8: every log query spans at most 50,000 blocks. The reverse scan does not keep
  to it: at height 50000 with deployment block 0 its one query is \<open>[0, 50000]\<close>,
  which has 50,001 blocks, where the forward scan asks \<open>[0, 49999]\<close> and
  \<open>[50000, 50000]\<close>.
\<close>

theorem reverse_scan_window_50001:
  "snd (fetchEventsFromNetworkReverse_try cfg0 (quiet_client 50000) (\<lambda>bn. 0) ''0xM'' ''mordor''
          LimitAll None) = [(0, 50000)]
   \<and> span (0, 50000) = 50001
   \<and> snd (fetchEventsFromNetwork_try cfg0 (quiet_client 50000) ''0xM'' ''mordor'' None) =
       [(0, 49999), (50000, 50000)]"
  by code_simp

section \<open>The decoding of a log\<close>

lemma decode_purchase_log:
  "decodeLog (Some n) (purchase_log bn) =
     Inr \<lparr> buyer = ''0x1111111111111111111111111111111111111111'',
           receiver = ''0xAbCdEf0123456789abcdef0123456789abcdef01'',
           amountSC = ''123.456789'',
           amountBC = ''1'',
           blockNumber = bn,
           transactionHash = ''0xtx'',
           timestamp = None,
           chainId = net_chainId n,
           networkName = net_name n \<rparr>"
  by (simp add: decodeLog_def purchase_log_def topic_def BigInt_def hex_digit_def
      formatAddress_def slice_last_def
      formatUnits_def padStart0_def strip_zeros_def digit_char_def Let_def)

lemma networks_cfg0:
  "NETWORKS cfg0 ''sepolia'' = Some \<lparr>net_chainId = 11155111, net_name = ''Sepolia''\<rparr>"
  "NETWORKS cfg0 ''ethereum-classic'' = Some \<lparr>net_chainId = 61, net_name = ''Ethereum Classic''\<rparr>"
  "NETWORKS cfg0 ''mordor'' = Some \<lparr>net_chainId = 63, net_name = ''Mordor Testnet''\<rparr>"
  by (simp_all add: cfg0_def)

lemma decode_purchase_log_sepolia:
  "decodeLog (NETWORKS cfg0 ''sepolia'') (purchase_log bn) =
     Inr \<lparr> buyer = ''0x1111111111111111111111111111111111111111'',
           receiver = ''0xAbCdEf0123456789abcdef0123456789abcdef01'',
           amountSC = ''123.456789'',
           amountBC = ''1'',
           blockNumber = bn,
           transactionHash = ''0xtx'',
           timestamp = None,
           chainId = 11155111,
           networkName = ''Sepolia'' \<rparr>"
  by (simp add: networks_cfg0 decode_purchase_log)

lemma formatAddress_prefixed:
  "formatAddress (CHR ''0'' # CHR ''x'' # h) = CHR ''0'' # CHR ''x'' # drop (length h - 40) h"
  by (simp add: formatAddress_def slice_last_def)

lemma decodeLog_addresses:
  assumes "decodeLog network event = Inr e"
  shows "buyer e = formatAddress (log_topics event ! 1)
    \<and> receiver e = formatAddress (log_topics event ! 2)"
  using assms
  by (auto simp: decodeLog_def Let_def topic_def split: option.splits sum.splits if_splits)

text \<open>
  Claim C5, as the code has it: for a topic written as \<open>0x\<close> and 64 hexadecimal
  characters, the decoder's buyer and receiver are \<open>0x\<close> followed by the last 40
  characters of the topic (its low 20 bytes), as they are written in the topic: no
  letter changes its case.
\<close>

theorem formatAddress_low_20_bytes:
  assumes "decodeLog network event = Inr e"
    and "log_topics event ! 1 = ''0x'' @ b" and "length b = 64"
    and "log_topics event ! 2 = ''0x'' @ r" and "length r = 64"
  shows "buyer e = ''0x'' @ drop 24 b \<and> receiver e = ''0x'' @ drop 24 r"
  using decodeLog_addresses [OF assms(1)] assms(2-5)
  by (simp add: formatAddress_prefixed)

theorem formatAddress_low_20_bytes_witness:
  "decodeLog (NETWORKS cfg0 ''sepolia'') (purchase_log 5) =
     Inr \<lparr> buyer = ''0x1111111111111111111111111111111111111111'',
           receiver = ''0xAbCdEf0123456789abcdef0123456789abcdef01'',
           amountSC = ''123.456789'',
           amountBC = ''1'',
           blockNumber = 5,
           transactionHash = ''0xtx'',
           timestamp = None,
           chainId = 11155111,
           networkName = ''Sepolia'' \<rparr>
   \<and> log_topics (purchase_log 5) ! 2 =
       ''0x'' @ ''000000000000000000000000AbCdEf0123456789abcdef0123456789abcdef01''
   \<and> ''0xAbCdEf0123456789abcdef0123456789abcdef01'' =
       ''0x'' @ drop 24 ''000000000000000000000000AbCdEf0123456789abcdef0123456789abcdef01''"
proof -
  have t1: "log_topics (purchase_log 5) ! 1 =
      ''0x'' @ ''0000000000000000000000001111111111111111111111111111111111111111''"
    by (simp add: purchase_log_def)
  have t2: "log_topics (purchase_log 5) ! 2 =
      ''0x'' @ ''000000000000000000000000AbCdEf0123456789abcdef0123456789abcdef01''"
    by (simp add: purchase_log_def)
  have l1: "length ''0000000000000000000000001111111111111111111111111111111111111111'' = 64"
    by simp
  have l2: "length ''000000000000000000000000AbCdEf0123456789abcdef0123456789abcdef01'' = 64"
    by simp
  have "receiver \<lparr> buyer = ''0x1111111111111111111111111111111111111111'',
           receiver = ''0xAbCdEf0123456789abcdef0123456789abcdef01'',
           amountSC = ''123.456789'',
           amountBC = ''1'',
           blockNumber = 5,
           transactionHash = ''0xtx'',
           timestamp = None,
           chainId = 11155111,
           networkName = ''Sepolia'' \<rparr> =
       ''0x'' @ drop 24 ''000000000000000000000000AbCdEf0123456789abcdef0123456789abcdef01''"
    using formatAddress_low_20_bytes [OF decode_purchase_log_sepolia t1 l1 t2 l2]
    by (rule conjunct2)
  then have "''0xAbCdEf0123456789abcdef0123456789abcdef01'' =
       ''0x'' @ drop 24 ''000000000000000000000000AbCdEf0123456789abcdef0123456789abcdef01''"
    by (simp only: TransactionEvent.simps)
  with decode_purchase_log_sepolia [of 5] t2 show ?thesis
    by (intro conjI)
qed

text \<open>
  Claim C5 as the specification states it fails: the topic of the specification's
  example decodes to an address that keeps the capital letters.
\<close>

theorem formatAddress_keeps_case:
  "formatAddress ''0x000000000000000000000000AbCdEf0123456789abcdef0123456789abcdef01''
     = ''0xAbCdEf0123456789abcdef0123456789abcdef01''
   \<and> formatAddress ''0x000000000000000000000000AbCdEf0123456789abcdef0123456789abcdef01''
     \<noteq> ''0xabcdef0123456789abcdef0123456789abcdef01''"
  by (simp add: formatAddress_def slice_last_def)


section \<open>The amounts\<close>

declare toString.simps [simp del]

lemma digit_char_cases:
  assumes "d < 10"
  shows "digit_value (digit_char d) = d \<and> digit_char d \<in> decimal_chars"
proof -
  from assms have "d = 0 \<or> d = 1 \<or> d = 2 \<or> d = 3 \<or> d = 4 \<or> d = 5 \<or> d = 6 \<or> d = 7 \<or> d = 8 \<or> d = 9"
    by arith
  then show ?thesis
    by (elim disjE) (simp_all add: digit_char_def digit_value_def decimal_chars_def)
qed

lemma read_digits_snoc: "read_digits (s @ [c]) = 10 * read_digits s + digit_value c"
  by (simp add: read_digits_def)

lemma read_digits_toString: "read_digits (toString n) = n"
proof (induction n rule: toString.induct)
  case (1 n)
  show ?case
  proof (cases "n < 10")
    case True
    then show ?thesis
      by (subst toString.simps) (simp add: read_digits_def digit_char_cases)
  next
    case False
    have "n mod 10 < 10"
      by simp
    then have "digit_value (digit_char (n mod 10)) = n mod 10"
      by (simp add: digit_char_cases)
    with False "1.IH" show ?thesis
      by (subst toString.simps) (simp add: read_digits_snoc)
  qed
qed

lemma decimal_chars_facts: "CHR ''0'' \<in> decimal_chars" "CHR ''.'' \<notin> decimal_chars"
  by (simp_all add: decimal_chars_def)

lemma toString_digits: "set (toString n) \<subseteq> decimal_chars"
proof (induction n rule: toString.induct)
  case (1 n)
  show ?case
  proof (cases "n < 10")
    case True
    then have "digit_char n \<in> decimal_chars"
      using digit_char_cases [of n] by blast
    with True show ?thesis
      by (subst toString.simps) simp
  next
    case False
    have "n mod 10 < 10"
      by simp
    then have "digit_char (n mod 10) \<in> decimal_chars"
      using digit_char_cases [of "n mod 10"] by blast
    with False "1.IH" show ?thesis
      by (subst toString.simps) simp
  qed
qed

lemma toString_nonempty: "toString n \<noteq> []"
  by (subst toString.simps) simp

lemma read_digits_zeros: "read_digits (replicate k CHR ''0'' @ s) = read_digits s"
proof -
  have "foldl (\<lambda>n c. 10 * n + digit_value c) 0 (replicate k CHR ''0'') = 0"
    by (induction k) (simp_all add: digit_value_def)
  then show ?thesis
    by (simp add: read_digits_def)
qed

lemma strip_zeros_snoc:
  "strip_zeros (s @ [c]) = (if c = CHR ''0'' then strip_zeros s else s @ [c])"
  by (simp add: strip_zeros_def)

lemma length_strip_zeros: "length (strip_zeros s) \<le> length s"
  by (simp add: strip_zeros_def length_dropWhile_le [of _ "rev s", simplified])

lemma strip_zeros_pad:
  "strip_zeros s @ replicate (length s - length (strip_zeros s)) CHR ''0'' = s"
proof (induction s rule: rev_induct)
  case Nil
  show ?case
    by (simp add: strip_zeros_def)
next
  case (snoc c s)
  show ?case
  proof (cases "c = CHR ''0''")
    case True
    have "Suc (length s) - length (strip_zeros s) = Suc (length s - length (strip_zeros s))"
      using length_strip_zeros [of s] by arith
    then have "strip_zeros s @ replicate (Suc (length s) - length (strip_zeros s)) CHR ''0'' =
        (strip_zeros s @ replicate (length s - length (strip_zeros s)) CHR ''0'') @ [CHR ''0'']"
      by (simp add: replicate_append_same)
    with True snoc show ?thesis
      by (simp add: strip_zeros_snoc)
  next
    case False
    then show ?thesis
      by (simp add: strip_zeros_snoc)
  qed
qed

lemma strip_zeros_subset: "set (strip_zeros s) \<subseteq> set s"
  by (auto simp: strip_zeros_def dest: set_dropWhileD)

lemma takeWhile_no_point:
  "CHR ''.'' \<notin> set a \<Longrightarrow>
   takeWhile (\<lambda>c. c \<noteq> CHR ''.'') (a @ (if f = [] then [] else CHR ''.'' # f)) = a
   \<and> drop 1 (dropWhile (\<lambda>c. c \<noteq> CHR ''.'') (a @ (if f = [] then [] else CHR ''.'' # f))) = f"
  by (induction a) auto

lemma read_fixed_formatUnits:
  assumes "0 \<le> v"
  shows "int (read_fixed decimals (formatUnits v decimals)) = v"
    and "set (formatUnits v decimals) \<subseteq> insert CHR ''.'' decimal_chars"
proof -
  define P where "P = padStart0 decimals (toString (nat v))"
  define I where "I = take (length P - decimals) P"
  define F where "F = drop (length P - decimals) P"
  define I' where "I' = (if I = [] then ''0'' else I)"
  have digits: "set P \<subseteq> decimal_chars"
    using toString_digits [of "nat v"] decimal_chars_facts(1) by (auto simp: P_def padStart0_def)
  have len: "decimals \<le> length P"
    by (simp add: P_def padStart0_def)
  have val: "read_digits P = nat v"
    by (simp add: P_def padStart0_def read_digits_zeros read_digits_toString)
  have IF: "I @ F = P"
    by (simp add: I_def F_def)
  have lenF: "length F = decimals"
    using len by (simp add: F_def)
  have "set I \<subseteq> set P"
    unfolding I_def by (rule set_take_subset)
  with digits have digI: "set I' \<subseteq> decimal_chars"
    using decimal_chars_facts(1) by (auto simp: I'_def)
  then have noPoint: "CHR ''.'' \<notin> set I'"
    using decimal_chars_facts(2) by blast
  have "set F \<subseteq> set P"
    unfolding F_def by (rule set_drop_subset)
  with digits strip_zeros_subset [of F] have digF: "set (strip_zeros F) \<subseteq> decimal_chars"
    by blast
  have out: "formatUnits v decimals =
      I' @ (if strip_zeros F = [] then [] else CHR ''.'' # strip_zeros F)"
    using assms by (simp add: formatUnits_def Let_def P_def I_def F_def I'_def)
  have pad: "strip_zeros F @ replicate (decimals - length (strip_zeros F)) CHR ''0'' = F"
    using strip_zeros_pad [of F] by (simp add: lenF)
  have "read_digits (I' @ F) = read_digits (I @ F)"
    using read_digits_zeros [of 1 F] by (simp add: I'_def)
  then have "read_fixed decimals (formatUnits v decimals) = nat v"
    using takeWhile_no_point [OF noPoint, of "strip_zeros F"]
    by (simp add: read_fixed_def out Let_def pad IF val)
  with assms show "int (read_fixed decimals (formatUnits v decimals)) = v"
    by simp
  show "set (formatUnits v decimals) \<subseteq> insert CHR ''.'' decimal_chars"
    unfolding out using digI digF by auto
qed

lemma BigInt_nonneg: "BigInt s = Inr v \<Longrightarrow> 0 \<le> v"
  by (auto simp: BigInt_def split: if_splits option.splits)

lemma decodeLog_amounts:
  assumes "decodeLog network event = Inr e"
  shows "\<exists>sc bc. BigInt (''0x'' @ take 64 (drop 2 (log_data event))) = Inr sc
      \<and> BigInt (''0x'' @ drop 64 (drop 2 (log_data event))) = Inr bc
      \<and> amountSC e = formatUnits sc 6 \<and> amountBC e = formatUnits bc 18"
  using assms
  by (auto simp: decodeLog_def Let_def split: option.splits sum.splits)

text \<open>
  Claim C6: the amounts of a decoded log are the exact fixed-point notations of the
  integers of its data field: the stable-coin amount is the hexadecimal integer of the
  first 64 characters after the prefix written with 6 decimals, the base-coin amount the
  integer of the rest written with 18 decimals. Reading the notation back gives the
  integer again (nothing is rounded), and the notation has only digits and the point
  (no exponent). The raw integer 123456789 is written \<open>123.456789\<close> and 0 is
  written \<open>0\<close>.
\<close>

theorem decode_amounts_exact:
  assumes "decodeLog network event = Inr e"
  shows "\<exists>sc bc. BigInt (''0x'' @ take 64 (drop 2 (log_data event))) = Inr sc
      \<and> BigInt (''0x'' @ drop 64 (drop 2 (log_data event))) = Inr bc
      \<and> amountSC e = formatUnits sc 6 \<and> amountBC e = formatUnits bc 18
      \<and> int (read_fixed 6 (amountSC e)) = sc \<and> int (read_fixed 18 (amountBC e)) = bc
      \<and> set (amountSC e) \<subseteq> insert CHR ''.'' decimal_chars
      \<and> set (amountBC e) \<subseteq> insert CHR ''.'' decimal_chars
      \<and> formatUnits 123456789 6 = ''123.456789'' \<and> formatUnits 0 6 = ''0''"
proof -
  from decodeLog_amounts [OF assms] obtain sc bc where
    sc: "BigInt (''0x'' @ take 64 (drop 2 (log_data event))) = Inr sc"
    and bc: "BigInt (''0x'' @ drop 64 (drop 2 (log_data event))) = Inr bc"
    and a: "amountSC e = formatUnits sc 6" and b: "amountBC e = formatUnits bc 18"
    by blast
  have nn: "0 \<le> sc" "0 \<le> bc"
    using sc bc by (auto dest: BigInt_nonneg)
  have ex1: "formatUnits 123456789 6 = ''123.456789''"
    by (simp add: formatUnits_def padStart0_def strip_zeros_def digit_char_def Let_def
        toString.simps)
  have ex2: "formatUnits 0 6 = ''0''"
    by (simp add: formatUnits_def padStart0_def strip_zeros_def digit_char_def Let_def
        toString.simps)
  show ?thesis
    using sc bc a b read_fixed_formatUnits [OF nn(1), of 6] read_fixed_formatUnits [OF nn(2), of 18]
      ex1 ex2
    by (intro exI [of _ sc] exI [of _ bc]) (simp only: simp_thms)
qed

theorem decode_amounts_exact_witness:
  "decodeLog (NETWORKS cfg0 ''sepolia'') (purchase_log 5) =
     Inr \<lparr> buyer = ''0x1111111111111111111111111111111111111111'',
           receiver = ''0xAbCdEf0123456789abcdef0123456789abcdef01'',
           amountSC = ''123.456789'',
           amountBC = ''1'',
           blockNumber = 5,
           transactionHash = ''0xtx'',
           timestamp = None,
           chainId = 11155111,
           networkName = ''Sepolia'' \<rparr>
   \<and> BigInt (''0x'' @ take 64 (drop 2 (log_data (purchase_log 5)))) = Inr 123456789
   \<and> BigInt (''0x'' @ drop 64 (drop 2 (log_data (purchase_log 5)))) = Inr 1000000000000000000
   \<and> int (read_fixed 6 ''123.456789'') = 123456789
   \<and> int (read_fixed 18 ''1'') = 1000000000000000000"
proof -
  have sc: "BigInt (''0x'' @ take 64 (drop 2 (log_data (purchase_log 5)))) = Inr 123456789"
    by (simp add: purchase_log_def BigInt_def hex_digit_def)
  have bc: "BigInt (''0x'' @ drop 64 (drop 2 (log_data (purchase_log 5)))) =
      Inr 1000000000000000000"
    by (simp add: purchase_log_def BigInt_def hex_digit_def)
  from decode_amounts_exact [OF decode_purchase_log_sepolia [of 5]] sc bc
  have "int (read_fixed 6 ''123.456789'') = 123456789
      \<and> int (read_fixed 18 ''1'') = 1000000000000000000"
    by (auto simp only: TransactionEvent.simps sum.inject)
  with decode_purchase_log_sepolia [of 5] sc bc show ?thesis
    by (intro conjI) blast+
qed

section \<open>Sorting and the limit\<close>

lemma set_insert_cmp: "set (insert_cmp cmp x ys) = insert x (set ys)"
  by (induction ys) auto

lemma mset_insert_cmp: "mset (insert_cmp cmp x ys) = add_mset x (mset ys)"
  by (induction ys) auto

lemma sort_js_Cons: "sort_js cmp (x # xs) = insert_cmp cmp x (sort_js cmp xs)"
  by (simp add: sort_js_def)

lemma sort_js_Nil: "sort_js cmp [] = []"
  by (simp add: sort_js_def)

lemma mset_sort_js: "mset (sort_js cmp xs) = mset xs"
  by (induction xs) (simp_all add: sort_js_Nil sort_js_Cons mset_insert_cmp)

lemma set_sort_js: "set (sort_js cmp xs) = set xs"
  by (metis mset_sort_js set_mset_mset)

lemma length_sort_js: "length (sort_js cmp xs) = length xs"
  by (metis mset_sort_js size_mset)

lemma sorted_insert_cmp:
  fixes key :: "'a \<Rightarrow> int"
  assumes "\<And>a b. a \<in> insert x (set ys) \<Longrightarrow> b \<in> insert x (set ys) \<Longrightarrow>
             (cmp a b \<le> 0) = (key b \<le> key a)"
    and "sorted_wrt (\<lambda>a b. key b \<le> key a) ys"
  shows "sorted_wrt (\<lambda>a b. key b \<le> key a) (insert_cmp cmp x ys)"
  using assms
proof (induction ys)
  case Nil
  then show ?case
    by simp
next
  case (Cons y ys)
  have xy: "(cmp x y \<le> 0) = (key y \<le> key x)"
    using Cons.prems(1) by simp
  show ?case
  proof (cases "cmp x y \<le> 0")
    case True
    with xy have "key y \<le> key x"
      by simp
    moreover have "\<forall>z \<in> set ys. key z \<le> key y"
      using Cons.prems(2) by simp
    ultimately have "\<forall>z \<in> set (y # ys). key z \<le> key x"
      by auto
    with True Cons.prems(2) show ?thesis
      by simp
  next
    case False
    with xy have "key x \<le> key y"
      by simp
    moreover have "\<forall>z \<in> set ys. key z \<le> key y"
      using Cons.prems(2) by simp
    ultimately have "\<forall>z \<in> set (insert_cmp cmp x ys). key z \<le> key y"
      by (simp add: set_insert_cmp)
    moreover have "sorted_wrt (\<lambda>a b. key b \<le> key a) (insert_cmp cmp x ys)"
      using Cons.prems by (intro Cons.IH) auto
    ultimately show ?thesis
      using False by simp
  qed
qed

lemma sorted_sort_js:
  fixes key :: "'a \<Rightarrow> int"
  assumes "\<And>a b. a \<in> set xs \<Longrightarrow> b \<in> set xs \<Longrightarrow> (cmp a b \<le> 0) = (key b \<le> key a)"
  shows "sorted_wrt (\<lambda>a b. key b \<le> key a) (sort_js cmp xs)"
  using assms
proof (induction xs)
  case Nil
  show ?case
    by (simp add: sort_js_Nil)
next
  case (Cons x xs)
  have "sorted_wrt (\<lambda>a b. key b \<le> key a) (sort_js cmp xs)"
    using Cons.prems by (intro Cons.IH) auto
  then show ?case
    unfolding sort_js_Cons using Cons.prems
    by (intro sorted_insert_cmp) (auto simp: set_sort_js)
qed

lemma apply_limit_take: "\<exists>k. apply_limit lim xs = take k xs"
proof (cases lim)
  case LimitAll
  then have "apply_limit lim xs = take (length xs) xs"
    by (simp add: apply_limit_def)
  then show ?thesis ..
next
  case (LimitNum n)
  then show ?thesis
    by (auto simp: apply_limit_def slice0_def Let_def)
qed

lemma length_apply_limit: "0 \<le> n \<Longrightarrow> int (length (apply_limit (LimitNum n) xs)) \<le> n"
  by (simp add: apply_limit_def slice0_def Let_def)

lemma mapE_Inr: "mapE f xs = Inr ys \<Longrightarrow> map f xs = map Inr ys"
  by (induction xs arbitrary: ys) (auto split: sum.splits)

lemma decodeLog_fields:
  "decodeLog network event = Inr e \<Longrightarrow>
     blockNumber e = log_blockNumber event \<and> timestamp e = None"
  by (auto simp: decodeLog_def Let_def split: option.splits sum.splits)

lemma mapE_decodeLog:
  assumes "mapE (decodeLog network) ls = Inr es"
  shows "map blockNumber es = map log_blockNumber ls"
    and "\<forall>e \<in> set es. timestamp e = None"
    and "length es = length ls"
proof -
  have eq: "map (decodeLog network) ls = map Inr es"
    using assms by (rule mapE_Inr)
  then show len: "length es = length ls"
    by (metis length_map)
  have nth: "decodeLog network (ls ! i) = Inr (es ! i)" if "i < length ls" for i
    using that eq len by (metis nth_map)
  show "map blockNumber es = map log_blockNumber ls"
    using len nth by (auto simp: list_eq_iff_nth_eq dest: decodeLog_fields)
  show "\<forall>e \<in> set es. timestamp e = None"
  proof
    fix e
    assume "e \<in> set es"
    then obtain i where "i < length es" "es ! i = e"
      by (auto simp: in_set_conv_nth)
    with len nth [of i] have "decodeLog network (ls ! i) = Inr e"
      by simp
    then show "timestamp e = None"
      by (simp add: decodeLog_fields)
  qed
qed


section \<open>The result of the reverse scan\<close>

lemma reverse_try_Inr:
  assumes "fst (fetchEventsFromNetworkReverse_try cfg c now address networkKey lim merchantAddress)
             = Inr evs"
  shows "\<exists>currentBlock collected mapped.
      getBlockNumber c = Inr currentBlock
      \<and> fst (reverse_loop c address (receiverArgs merchantAddress) lim
               (startBlockOf cfg networkKey) currentBlock [] []) = Inr collected
      \<and> mapE (decodeLog (NETWORKS cfg networkKey))
               (apply_limit lim (sort_js cmp_blockNumber collected)) = Inr mapped
      \<and> evs = attachTimestamps c now mapped"
  using assms
  by (auto simp: fetchEventsFromNetworkReverse_try_def Let_def split: sum.splits prod.splits)

lemma sorted_sort_blockNumber:
  "sorted_wrt (\<lambda>a b. log_blockNumber b \<le> log_blockNumber a) (sort_js cmp_blockNumber xs)"
  by (rule sorted_sort_js) (simp add: cmp_blockNumber_def)

lemma filter_in_range_split:
  assumes "lo \<le> mid" "mid \<le> hi + 1"
  shows "mset (filter (in_range mid hi) logs) + mset (filter (in_range lo (mid - 1)) logs) =
         mset (filter (in_range lo hi) logs)"
  using assms by (induction logs) (auto simp: in_range_def)

lemma filter_in_range_empty: "hi < lo \<Longrightarrow> filter (in_range lo hi) logs = []"
  by (induction logs) (auto simp: in_range_def)

lemma reverse_loop_collects:
  "serves c address args logs \<Longrightarrow> lim = LimitAll \<Longrightarrow>
   fst (reverse_loop c address args lim startBlock toBlock collectedEvents qs) = Inr r \<Longrightarrow>
   mset r = mset collectedEvents + mset (filter (in_range startBlock toBlock) logs)"
proof (induction c address args lim startBlock toBlock collectedEvents qs
       rule: reverse_loop.induct)
  case (1 c address args lim startBlock toBlock collectedEvents qs)
  show ?case
  proof (cases "toBlock \<ge> startBlock")
    case False
    with "1.prems"(3) have "r = collectedEvents"
      by (subst (asm) reverse_loop.simps) simp
    with False show ?thesis
      by (simp add: filter_in_range_empty)
  next
    case True
    define fromBlock where
      "fromBlock = (if toBlock - 50000 < startBlock then startBlock else toBlock - 50000)"
    have bounds: "startBlock \<le> fromBlock" "fromBlock \<le> toBlock"
      using True by (auto simp: fromBlock_def)
    show ?thesis
    proof (cases "getLogs c address args fromBlock toBlock")
      case (Inl e)
      with True "1.prems"(3) show ?thesis
        by (subst (asm) reverse_loop.simps) (simp add: fromBlock_def Let_def)
    next
      case (Inr purchaseEvents)
      have pe: "purchaseEvents = filter (in_range fromBlock toBlock) logs"
        using "1.prems"(1) Inr by (simp add: serves_def)
      have nl: "\<not> limit_reached lim (length (collectedEvents @ purchaseEvents))"
        using "1.prems"(2) by (simp add: limit_reached_def)
      show ?thesis
      proof (cases "fromBlock \<le> startBlock")
        case True
        with bounds have eq: "fromBlock = startBlock"
          by simp
        have "r = collectedEvents @ purchaseEvents"
          using "1.prems"(3) \<open>startBlock \<le> toBlock\<close> Inr nl True
          by (subst (asm) reverse_loop.simps) (simp add: fromBlock_def Let_def)
        then show ?thesis
          by (simp add: pe eq)
      next
        case False
        have unfold: "reverse_loop c address args lim startBlock toBlock collectedEvents qs =
                reverse_loop c address args lim startBlock (fromBlock - 1)
                  (collectedEvents @ purchaseEvents) (qs @ [(fromBlock, toBlock)])"
          using \<open>startBlock \<le> toBlock\<close> Inr nl False
          by (subst reverse_loop.simps) (simp add: fromBlock_def Let_def)
        have "mset r = mset (collectedEvents @ purchaseEvents)
                + mset (filter (in_range startBlock (fromBlock - 1)) logs)"
          using "1.IH" [OF \<open>startBlock \<le> toBlock\<close> fromBlock_def Inr nl False "1.prems"(1,2)]
            "1.prems"(3)
          unfolding unfold .
        then show ?thesis
          using filter_in_range_split [of startBlock fromBlock toBlock logs] bounds
          by (simp add: pe)
      qed
    qed
  qed
qed

lemma purchase_log_blockNumber: "log_blockNumber (purchase_log bn) = bn"
  by (simp add: purchase_log_def)

lemmas scan_eval =
  chain_client_def failing_client_def flaky_client_def startBlockOf_def cfg0_def receiverArgs_def
  limit_reached_def in_range_def purchase_log_blockNumber sort_js_def cmp_blockNumber_def
  apply_limit_def slice0_def decode_purchase_log attachTimestamps_eq getBlockTimestamp_def
  newDate_def

lemma reverse_eval_all:
  "fetchEventsFromNetworkReverse_try cfg0 (chain_client 60000 chain_logs) (\<lambda>bn. 0) ''0xS''
      ''sepolia'' LimitAll None =
   (Inr [\<lparr> buyer = ''0x1111111111111111111111111111111111111111'',
           receiver = ''0xAbCdEf0123456789abcdef0123456789abcdef01'',
           amountSC = ''123.456789'', amountBC = ''1'', blockNumber = 55000,
           transactionHash = ''0xtx'', timestamp = Some (Date 1700660000000),
           chainId = 11155111, networkName = ''Sepolia'' \<rparr>,
         \<lparr> buyer = ''0x1111111111111111111111111111111111111111'',
           receiver = ''0xAbCdEf0123456789abcdef0123456789abcdef01'',
           amountSC = ''123.456789'', amountBC = ''1'', blockNumber = 20000,
           transactionHash = ''0xtx'', timestamp = Some (Date 1700240000000),
           chainId = 11155111, networkName = ''Sepolia'' \<rparr>,
         \<lparr> buyer = ''0x1111111111111111111111111111111111111111'',
           receiver = ''0xAbCdEf0123456789abcdef0123456789abcdef01'',
           amountSC = ''123.456789'', amountBC = ''1'', blockNumber = 100,
           transactionHash = ''0xtx'', timestamp = Some (Date 1700001200000),
           chainId = 11155111, networkName = ''Sepolia'' \<rparr>],
    [(10000, 60000), (10, 9999)])"
  by (simp add: fetchEventsFromNetworkReverse_try_def chain_logs_def reverse_loop.simps scan_eval)

lemma strip_attached:
  assumes "\<forall>e \<in> set mapped. timestamp e = None"
  shows "map (\<lambda>e. e\<lparr>timestamp := None\<rparr>) (attachTimestamps c now mapped) = mapped"
proof -
  have "e\<lparr>timestamp := Some t\<rparr>\<lparr>timestamp := None\<rparr> = e" if "timestamp e = None" for e :: TransactionEvent and t
    using that by simp
  with assms show ?thesis
    by (simp add: attachTimestamps_eq map_idI)
qed

lemma reverse_scan_sorted_length:
  assumes "fst (fetchEventsFromNetworkReverse_try cfg c now address networkKey lim merchantAddress)
             = Inr evs"
  shows "sorted_wrt (\<lambda>a b. blockNumber b \<le> blockNumber a) evs"
    and "0 \<le> n \<Longrightarrow> lim = LimitNum n \<Longrightarrow> int (length evs) \<le> n"
proof -
  from reverse_try_Inr [OF assms] obtain currentBlock collected mapped where
    mapped: "mapE (decodeLog (NETWORKS cfg networkKey))
               (apply_limit lim (sort_js cmp_blockNumber collected)) = Inr mapped"
    and evs: "evs = attachTimestamps c now mapped"
    by blast
  obtain k where k: "apply_limit lim (sort_js cmp_blockNumber collected) =
      take k (sort_js cmp_blockNumber collected)"
    using apply_limit_take by blast
  have "sorted_wrt (\<lambda>a b. log_blockNumber b \<le> log_blockNumber a)
          (take k (sort_js cmp_blockNumber collected))"
    using sorted_sort_blockNumber by (rule sorted_wrt_take)
  then have "sorted_wrt (\<lambda>x y. y \<le> x)
          (map log_blockNumber (apply_limit lim (sort_js cmp_blockNumber collected)))"
    by (simp add: sorted_wrt_map k)
  then have "sorted_wrt (\<lambda>x y. y \<le> x) (map blockNumber evs)"
    using mapE_decodeLog(1) [OF mapped] by (simp add: evs attachTimestamps_eq comp_def)
  then show "sorted_wrt (\<lambda>a b. blockNumber b \<le> blockNumber a) evs"
    by (simp add: sorted_wrt_map)
  show "int (length evs) \<le> n" if "0 \<le> n" "lim = LimitNum n"
    using mapE_decodeLog(3) [OF mapped] length_apply_limit [OF that(1)] that(2)
    by (simp add: evs attachTimestamps_eq)
qed

lemma reverse_scan_complete:
  assumes ran: "fst (fetchEventsFromNetworkReverse_try cfg c now address networkKey LimitAll
                   merchantAddress) = Inr evs"
    and cur: "getBlockNumber c = Inr currentBlock"
    and serves: "serves c address (receiverArgs merchantAddress) logs"
  shows "mset (map (\<lambda>e. Inr (e\<lparr>timestamp := None\<rparr>)) evs) =
         mset (map (decodeLog (NETWORKS cfg networkKey))
                 (filter (in_range (startBlockOf cfg networkKey) currentBlock) logs))"
proof -
  from reverse_try_Inr [OF ran] cur obtain collected mapped where
    loop: "fst (reverse_loop c address (receiverArgs merchantAddress) LimitAll
               (startBlockOf cfg networkKey) currentBlock [] []) = Inr collected"
    and mapped: "mapE (decodeLog (NETWORKS cfg networkKey))
               (apply_limit LimitAll (sort_js cmp_blockNumber collected)) = Inr mapped"
    and evs: "evs = attachTimestamps c now mapped"
    by auto
  have coll: "mset collected =
      mset (filter (in_range (startBlockOf cfg networkKey) currentBlock) logs)"
    using reverse_loop_collects [OF serves refl loop] by simp
  have "map (decodeLog (NETWORKS cfg networkKey)) (sort_js cmp_blockNumber collected) =
      map Inr mapped"
    using mapE_Inr [OF mapped] by (simp add: apply_limit_def)
  then have "mset (map Inr mapped) =
      image_mset (decodeLog (NETWORKS cfg networkKey)) (mset (sort_js cmp_blockNumber collected))"
    by (metis mset_map)
  also have "\<dots> = mset (map (decodeLog (NETWORKS cfg networkKey))
                 (filter (in_range (startBlockOf cfg networkKey) currentBlock) logs))"
    by (simp add: mset_sort_js coll)
  finally have "mset (map Inr mapped) = mset (map (decodeLog (NETWORKS cfg networkKey))
                 (filter (in_range (startBlockOf cfg networkKey) currentBlock) logs))" .
  moreover have "map (\<lambda>e. Inr (e\<lparr>timestamp := None\<rparr>)) evs = map Inr mapped"
  proof -
    have "map (\<lambda>e. e\<lparr>timestamp := None\<rparr>) evs = mapped"
      unfolding evs by (rule strip_attached [OF mapE_decodeLog(2) [OF mapped]])
    then have "map Inr (map (\<lambda>e. e\<lparr>timestamp := None\<rparr>) evs) = map Inr mapped"
      by simp
    then show ?thesis
      by (simp add: comp_def)
  qed
  ultimately show ?thesis
    by metis
qed

text \<open>
  Claim C3, as the code has it: the sequence that a reverse scan of one network
  returns is sorted descending by block number; when the limit is a number that is not
  negative, it has at most that many events; and when the limit is \<open>all\<close>, the
  client answers its log queries with the matching logs of the queried range, and no
  step of the scan throws, the returned events are, apart from their timestamps, the
  decodings of all matching logs between the deployment start block and the block height
  read at the start, each once.
\<close>

theorem reverse_scan_result:
  assumes "evs = fetchEventsFromNetworkReverse cfg c now address networkKey lim merchantAddress"
  shows "sorted_wrt (\<lambda>a b. blockNumber b \<le> blockNumber a) evs
    \<and> (\<forall>n. lim = LimitNum n \<and> 0 \<le> n \<longrightarrow> int (length evs) \<le> n)
    \<and> (lim = LimitAll \<and> getBlockNumber c = Inr currentBlock
        \<and> serves c address (receiverArgs merchantAddress) logs
        \<and> \<not> isl (fst (fetchEventsFromNetworkReverse_try cfg c now address networkKey lim
                         merchantAddress))
       \<longrightarrow> mset (map (\<lambda>e. Inr (e\<lparr>timestamp := None\<rparr>)) evs) =
           mset (map (decodeLog (NETWORKS cfg networkKey))
                   (filter (in_range (startBlockOf cfg networkKey) currentBlock) logs)))"
proof (cases "fst (fetchEventsFromNetworkReverse_try cfg c now address networkKey lim
                merchantAddress)")
  case (Inl e)
  then have "evs = []"
    using assms by (simp add: fetchEventsFromNetworkReverse_def)
  with Inl show ?thesis
    by simp
next
  case (Inr r)
  then have evs: "evs = r"
    using assms by (simp add: fetchEventsFromNetworkReverse_def)
  note ran = Inr [folded evs]
  show ?thesis
    using reverse_scan_sorted_length [OF ran] reverse_scan_complete [of cfg c now address
        networkKey merchantAddress evs currentBlock logs] ran
    by auto
qed

lemma serves_chain_client: "serves (chain_client h logs) address args logs"
  by (simp add: serves_def chain_client_def)

lemma reverse_eval_limit:
  "fetchEventsFromNetworkReverse cfg0 (chain_client 60000 chain_logs) (\<lambda>bn. 0) ''0xS''
      ''sepolia'' (LimitNum 2) None =
   [\<lparr> buyer = ''0x1111111111111111111111111111111111111111'',
           receiver = ''0xAbCdEf0123456789abcdef0123456789abcdef01'',
           amountSC = ''123.456789'', amountBC = ''1'', blockNumber = 55000,
           transactionHash = ''0xtx'', timestamp = Some (Date 1700660000000),
           chainId = 11155111, networkName = ''Sepolia'' \<rparr>,
    \<lparr> buyer = ''0x1111111111111111111111111111111111111111'',
           receiver = ''0xAbCdEf0123456789abcdef0123456789abcdef01'',
           amountSC = ''123.456789'', amountBC = ''1'', blockNumber = 20000,
           transactionHash = ''0xtx'', timestamp = Some (Date 1700240000000),
           chainId = 11155111, networkName = ''Sepolia'' \<rparr>]"
  by (simp add: fetchEventsFromNetworkReverse_def fetchEventsFromNetworkReverse_try_def
      chain_logs_def reverse_loop.simps scan_eval)

theorem reverse_scan_result_witness:
  "fetchEventsFromNetworkReverse cfg0 (chain_client 60000 chain_logs) (\<lambda>bn. 0) ''0xS''
      ''sepolia'' LimitAll None =
     [\<lparr> buyer = ''0x1111111111111111111111111111111111111111'',
           receiver = ''0xAbCdEf0123456789abcdef0123456789abcdef01'',
           amountSC = ''123.456789'', amountBC = ''1'', blockNumber = 55000,
           transactionHash = ''0xtx'', timestamp = Some (Date 1700660000000),
           chainId = 11155111, networkName = ''Sepolia'' \<rparr>,
      \<lparr> buyer = ''0x1111111111111111111111111111111111111111'',
           receiver = ''0xAbCdEf0123456789abcdef0123456789abcdef01'',
           amountSC = ''123.456789'', amountBC = ''1'', blockNumber = 20000,
           transactionHash = ''0xtx'', timestamp = Some (Date 1700240000000),
           chainId = 11155111, networkName = ''Sepolia'' \<rparr>,
      \<lparr> buyer = ''0x1111111111111111111111111111111111111111'',
           receiver = ''0xAbCdEf0123456789abcdef0123456789abcdef01'',
           amountSC = ''123.456789'', amountBC = ''1'', blockNumber = 100,
           transactionHash = ''0xtx'', timestamp = Some (Date 1700001200000),
           chainId = 11155111, networkName = ''Sepolia'' \<rparr>]
   \<and> mset (map (\<lambda>e. Inr (e\<lparr>timestamp := None\<rparr>))
         (fetchEventsFromNetworkReverse cfg0 (chain_client 60000 chain_logs) (\<lambda>bn. 0) ''0xS''
            ''sepolia'' LimitAll None)) =
       mset (map (decodeLog (NETWORKS cfg0 ''sepolia''))
         (filter (in_range (startBlockOf cfg0 ''sepolia'') 60000) chain_logs))
   \<and> int (length (fetchEventsFromNetworkReverse cfg0 (chain_client 60000 chain_logs) (\<lambda>bn. 0)
         ''0xS'' ''sepolia'' (LimitNum 2) None)) \<le> 2
   \<and> sorted_wrt (\<lambda>a b. blockNumber b \<le> blockNumber a)
         (fetchEventsFromNetworkReverse cfg0 (chain_client 60000 chain_logs) (\<lambda>bn. 0) ''0xS''
            ''sepolia'' (LimitNum 2) None)"
proof -
  have h: "getBlockNumber (chain_client 60000 chain_logs) = Inr 60000"
    by (simp add: chain_client_def)
  have ok: "\<not> isl (fst (fetchEventsFromNetworkReverse_try cfg0 (chain_client 60000 chain_logs)
      (\<lambda>bn. 0) ''0xS'' ''sepolia'' LimitAll None))"
    by (simp add: reverse_eval_all)
  have ev: "fetchEventsFromNetworkReverse cfg0 (chain_client 60000 chain_logs) (\<lambda>bn. 0) ''0xS''
      ''sepolia'' LimitAll None =
     [\<lparr> buyer = ''0x1111111111111111111111111111111111111111'',
           receiver = ''0xAbCdEf0123456789abcdef0123456789abcdef01'',
           amountSC = ''123.456789'', amountBC = ''1'', blockNumber = 55000,
           transactionHash = ''0xtx'', timestamp = Some (Date 1700660000000),
           chainId = 11155111, networkName = ''Sepolia'' \<rparr>,
      \<lparr> buyer = ''0x1111111111111111111111111111111111111111'',
           receiver = ''0xAbCdEf0123456789abcdef0123456789abcdef01'',
           amountSC = ''123.456789'', amountBC = ''1'', blockNumber = 20000,
           transactionHash = ''0xtx'', timestamp = Some (Date 1700240000000),
           chainId = 11155111, networkName = ''Sepolia'' \<rparr>,
      \<lparr> buyer = ''0x1111111111111111111111111111111111111111'',
           receiver = ''0xAbCdEf0123456789abcdef0123456789abcdef01'',
           amountSC = ''123.456789'', amountBC = ''1'', blockNumber = 100,
           transactionHash = ''0xtx'', timestamp = Some (Date 1700001200000),
           chainId = 11155111, networkName = ''Sepolia'' \<rparr>]"
    by (simp add: fetchEventsFromNetworkReverse_def reverse_eval_all)
  have a: "mset (map (\<lambda>e. Inr (e\<lparr>timestamp := None\<rparr>))
         (fetchEventsFromNetworkReverse cfg0 (chain_client 60000 chain_logs) (\<lambda>bn. 0) ''0xS''
            ''sepolia'' LimitAll None)) =
       mset (map (decodeLog (NETWORKS cfg0 ''sepolia''))
         (filter (in_range (startBlockOf cfg0 ''sepolia'') 60000) chain_logs))"
    using reverse_scan_result [OF refl, of cfg0 "chain_client 60000 chain_logs" "\<lambda>bn. 0" "''0xS''"
        "''sepolia''" LimitAll None 60000 chain_logs]
      h ok serves_chain_client [of 60000 chain_logs "''0xS''" "receiverArgs None"]
    by blast
  have b: "int (length (fetchEventsFromNetworkReverse cfg0 (chain_client 60000 chain_logs) (\<lambda>bn. 0)
         ''0xS'' ''sepolia'' (LimitNum 2) None)) \<le> 2
     \<and> sorted_wrt (\<lambda>a b. blockNumber b \<le> blockNumber a)
         (fetchEventsFromNetworkReverse cfg0 (chain_client 60000 chain_logs) (\<lambda>bn. 0) ''0xS''
            ''sepolia'' (LimitNum 2) None)"
    using reverse_scan_result [OF refl, of cfg0 "chain_client 60000 chain_logs" "\<lambda>bn. 0" "''0xS''"
        "''sepolia''" "LimitNum 2" None 60000 chain_logs]
    by simp
  from ev a b show ?thesis
    by (intro conjI) blast+
qed

text \<open>
  Claim C3 as the specification states it fails in two ways. With the limit \<open>all\<close>,
  a client that answers the first query with a matching log and throws on the second
  makes the scan return the empty sequence. With the limit \<open>-1\<close> and three logs,
  the scan returns two events, which is more than the limit.
\<close>

theorem reverse_scan_exception_and_negative_limit:
  "getLogs (flaky_client 60000 [purchase_log 55000]) ''0xM'' None 10000 60000 =
     Inr [purchase_log 55000]
   \<and> snd (fetchEventsFromNetworkReverse_try cfg0 (flaky_client 60000 [purchase_log 55000])
          (\<lambda>bn. 0) ''0xM'' ''mordor'' LimitAll None) = [(10000, 60000), (0, 9999)]
   \<and> fetchEventsFromNetworkReverse cfg0 (flaky_client 60000 [purchase_log 55000]) (\<lambda>bn. 0)
        ''0xM'' ''mordor'' LimitAll None = []
   \<and> length (fetchEventsFromNetworkReverse cfg0 (chain_client 100 (map purchase_log [1, 2, 3]))
        (\<lambda>bn. 0) ''0xM'' ''mordor'' (LimitNum (- 1)) None) = 2
   \<and> \<not> int 2 \<le> - 1"
  by (simp add: fetchEventsFromNetworkReverse_def fetchEventsFromNetworkReverse_try_def
      reverse_loop.simps scan_eval)

section \<open>The export\<close>


lemma getBlockTimestamp_in_range:
  assumes "timestamps_in_range c"
  shows "\<exists>t. getBlockTimestamp c now bn = Date t"
proof (cases "getBlock c bn")
  case (Inl e)
  then show ?thesis
    by (simp add: getBlockTimestamp_def)
next
  case (Inr ts)
  with assms have "\<bar>ts * 1000\<bar> \<le> 8640000000000000"
    unfolding timestamps_in_range_def by blast
  with Inr show ?thesis
    by (simp add: getBlockTimestamp_def newDate_def)
qed

lemma reverse_valid_timestamps:
  assumes "timestamps_in_range c"
  shows "list_all valid_timestamp
           (fetchEventsFromNetworkReverse cfg c now address networkKey lim merchantAddress)"
proof (cases "fst (fetchEventsFromNetworkReverse_try cfg c now address networkKey lim
                merchantAddress)")
  case (Inl e)
  then show ?thesis
    by (simp add: fetchEventsFromNetworkReverse_def)
next
  case (Inr evs)
  from reverse_try_Inr [OF Inr] obtain mapped where evs: "evs = attachTimestamps c now mapped"
    by blast
  have "valid_timestamp (e\<lparr>timestamp := Some (getBlockTimestamp c now (blockNumber e))\<rparr>)"
    for e :: TransactionEvent
    using getBlockTimestamp_in_range [OF assms, of now "blockNumber e"]
    by (auto simp: valid_timestamp_def)
  then show ?thesis
    using Inr by (simp add: fetchEventsFromNetworkReverse_def evs attachTimestamps_eq
        list_all_iff)
qed

lemma scanned_events_valid:
  assumes "timestamps_in_range (sepoliaClient cs)" and "timestamps_in_range (etcClient cs)"
    and "timestamps_in_range (mordorClient cs)"
  shows "list_all valid_timestamp (scanned_events cfg cs now lim merchantAddress)"
  using assms by (simp add: scanned_events_def reverse_valid_timestamps)








section \<open>The aggregation of the forward scans\<close>

lemma forward_eval_sepolia:
  "fst (fetchEventsFromNetwork_try cfg0 (sepoliaClient scenario_clients) (CONTRACTS_stablepay cfg0)
          ''sepolia'' None) =
     Inr (map (\<lambda>bn. \<lparr> buyer = ''0x1111111111111111111111111111111111111111'',
           receiver = ''0xAbCdEf0123456789abcdef0123456789abcdef01'',
           amountSC = ''123.456789'', amountBC = ''1'', blockNumber = bn,
           transactionHash = ''0xtx'', timestamp = None,
           chainId = 11155111, networkName = ''Sepolia'' \<rparr>) [20, 30, 40, 50, 60])"
  by (simp add: fetchEventsFromNetwork_try_def scenario_clients_def forward_loop.simps scan_eval)

lemma forward_eval_etc:
  "fst (fetchEventsFromNetwork_try cfg0 (etcClient scenario_clients) (CONTRACTS_stablepay_etc cfg0)
          ''ethereum-classic'' None) = Inl RpcError"
  by (simp add: fetchEventsFromNetwork_try_def scenario_clients_def forward_loop.simps scan_eval)

lemma forward_eval_mordor:
  "fst (fetchEventsFromNetwork_try cfg0 (mordorClient scenario_clients)
          (CONTRACTS_stablepay_mordor cfg0) ''mordor'' None) =
     Inr (map (\<lambda>bn. \<lparr> buyer = ''0x1111111111111111111111111111111111111111'',
           receiver = ''0xAbCdEf0123456789abcdef0123456789abcdef01'',
           amountSC = ''123.456789'', amountBC = ''1'', blockNumber = bn,
           transactionHash = ''0xtx'', timestamp = None,
           chainId = 63, networkName = ''Mordor Testnet'' \<rparr>) [1, 2, 3])"
  by (simp add: fetchEventsFromNetwork_try_def scenario_clients_def forward_loop.simps scan_eval)

text \<open>
  Claim C1: whatever the outcomes of the three forward scans are, an exception or a
  sequence of events each, fetchStableCoinPurchases does not throw and returns the
  concatenation of the sequences of the scans that succeeded, in the order Sepolia,
  Ethereum Classic, Mordor; a scan that threw contributes the empty sequence. With 5
  events, an RPC error and 3 events the result has 8 events.
\<close>

theorem purchases_isolate_failures:
  assumes "fst (fetchEventsFromNetwork_try cfg (sepoliaClient cs) (CONTRACTS_stablepay cfg)
                  ''sepolia'' merchantAddress) = o1"
    and "fst (fetchEventsFromNetwork_try cfg (etcClient cs) (CONTRACTS_stablepay_etc cfg)
                  ''ethereum-classic'' merchantAddress) = o2"
    and "fst (fetchEventsFromNetwork_try cfg (mordorClient cs) (CONTRACTS_stablepay_mordor cfg)
                  ''mordor'' merchantAddress) = o3"
  shows "fetchStableCoinPurchases cfg cs merchantAddress =
     Inr ((case o1 of Inl err \<Rightarrow> [] | Inr events \<Rightarrow> events)
        @ (case o2 of Inl err \<Rightarrow> [] | Inr events \<Rightarrow> events)
        @ (case o3 of Inl err \<Rightarrow> [] | Inr events \<Rightarrow> events))"
  using assms by (simp add: fetchStableCoinPurchases_def fetchEventsFromNetwork_def Let_def)

theorem purchases_isolate_failures_witness:
  "fst (fetchEventsFromNetwork_try cfg0 (etcClient scenario_clients) (CONTRACTS_stablepay_etc cfg0)
          ''ethereum-classic'' None) = Inl RpcError
   \<and> (\<exists>events. fetchStableCoinPurchases cfg0 scenario_clients None = Inr events
        \<and> length events = 8
        \<and> map blockNumber events = [20, 30, 40, 50, 60, 1, 2, 3]
        \<and> map chainId events = [11155111, 11155111, 11155111, 11155111, 11155111, 63, 63, 63])"
  using purchases_isolate_failures [OF forward_eval_sepolia forward_eval_etc forward_eval_mordor]
    forward_eval_etc
  by simp

end
